theory Spec2Isabelle
  imports Complex_Main "HOL-Library.Word"
begin

section \<open>Host values: numbers, bytes, errors, promises\<close>

text \<open>
  The SDK is TypeScript. A JavaScript \<^verbatim>\<open>number\<close> that the stream code only stores and hands
  on (error codes, sample rates, time stamps) is a \<^typ>\<open>real\<close>; an element of a
  \<^verbatim>\<open>Uint8Array\<close> is an 8-bit word; a string is a list of 8-bit code units, which covers
  every binary string that \<^verbatim>\<open>btoa\<close> accepts and \<^verbatim>\<open>atob\<close> returns.
\<close>

type_synonym number = real
type_synonym byte = "8 word"
type_synonym Uint8Array = "byte list"

text \<open>The error objects of \<^verbatim>\<open>errors.ts\<close> that the streams create, and the two host
  exceptions that the message handler can catch (\<^verbatim>\<open>JSON.parse\<close>, \<^verbatim>\<open>atob\<close>), and the
  one of a typed-array write out of bounds.
  The optional \<^verbatim>\<open>code\<close> of a \<^verbatim>\<open>WebSocketError\<close> is \<open>None\<close> when the constructor
  gets no second argument.\<close>

datatype error =
    WebSocketError string "number option"
  | ConnectionError string
  | SyntaxError
  | InvalidCharacterError
  | RangeError

text \<open>A promise is settled at most once: \<^verbatim>\<open>resolve\<close> and \<^verbatim>\<open>reject\<close> on a settled
  promise do nothing.\<close>

datatype 'a promise = Pending | Fulfilled 'a | Rejected error

definition resolve :: "'a \<Rightarrow> 'a promise \<Rightarrow> 'a promise" where
  "resolve v p = (case p of Pending \<Rightarrow> Fulfilled v | _ \<Rightarrow> p)"

definition reject :: "error \<Rightarrow> 'a promise \<Rightarrow> 'a promise" where
  "reject e p = (case p of Pending \<Rightarrow> Rejected e | _ \<Rightarrow> p)"

section \<open>Base64: \<^verbatim>\<open>btoa\<close> and \<^verbatim>\<open>atob\<close>\<close>

text \<open>
  \<^verbatim>\<open>btoa\<close> and \<^verbatim>\<open>atob\<close> are host functions; they are written out here after the
  forgiving-base64 algorithms of the HTML standard, on code units.
\<close>

definition b64_alphabet :: string where
  "b64_alphabet = ''ABCDEFGHIJKLMNOPQRSTUVWXYZabcdefghijklmnopqrstuvwxyz0123456789+/''"

definition b64_char :: "nat \<Rightarrow> char" where
  "b64_char i = b64_alphabet ! i"

fun index_of :: "'a \<Rightarrow> 'a list \<Rightarrow> nat option" where
  "index_of c [] = None"
| "index_of c (x # xs) =
     (if c = x then Some 0 else map_option Suc (index_of c xs))"

definition b64_index :: "char \<Rightarrow> nat option" where
  "b64_index c = index_of c b64_alphabet"

text \<open>Three octets become four sextets; one or two trailing octets become two or three.\<close>

fun sextets :: "nat list \<Rightarrow> nat list" where
  "sextets (a # b # c # rest) =
     [a div 4, (a mod 4) * 16 + b div 16, (b mod 16) * 4 + c div 64, c mod 64] @ sextets rest"
| "sextets [a, b] = [a div 4, (a mod 4) * 16 + b div 16, (b mod 16) * 4]"
| "sextets [a] = [a div 4, (a mod 4) * 16]"
| "sextets [] = []"

definition padding :: "nat \<Rightarrow> string" where
  "padding n = (if n mod 3 = 1 then ''=='' else if n mod 3 = 2 then ''='' else [])"

definition btoa :: "string \<Rightarrow> string" where
  "btoa s = map b64_char (sextets (map of_char s)) @ padding (length s)"

text \<open>Four sextets become three octets; two or three trailing sextets become one or two
  octets, the left-over bits being dropped.\<close>

fun octets :: "nat list \<Rightarrow> nat list" where
  "octets (p # q # r # s # rest) =
     [p * 4 + q div 16, (q mod 16) * 16 + r div 4, (r mod 4) * 64 + s] @ octets rest"
| "octets [p, q, r] = [p * 4 + q div 16, (q mod 16) * 16 + r div 4]"
| "octets [p, q] = [p * 4 + q div 16]"
| "octets _ = []"

definition ascii_whitespace :: "char \<Rightarrow> bool" where
  "ascii_whitespace c = (c \<in> set [CHR 0x09, CHR 0x0A, CHR 0x0C, CHR 0x0D, CHR 0x20])"

definition strip_padding :: "string \<Rightarrow> string" where
  "strip_padding s =
     (if length s mod 4 = 0 \<and> s \<noteq> [] \<and> last s = CHR ''=''
      then (if butlast s \<noteq> [] \<and> last (butlast s) = CHR ''=''
            then butlast (butlast s) else butlast s)
      else s)"

fun those_list :: "'a option list \<Rightarrow> 'a list option" where
  "those_list [] = Some []"
| "those_list (x # xs) =
     (case x of None \<Rightarrow> None
      | Some y \<Rightarrow> (case those_list xs of None \<Rightarrow> None | Some ys \<Rightarrow> Some (y # ys)))"

definition atob :: "string \<Rightarrow> error + string" where
  "atob d =
     (let s = strip_padding (filter (\<lambda>c. \<not> ascii_whitespace c) d)
      in if length s mod 4 = 1 then Inl InvalidCharacterError
         else (case those_list (map b64_index s) of
                 None \<Rightarrow> Inl InvalidCharacterError
               | Some ix \<Rightarrow> Inr (map char_of (octets ix))))"

text \<open>\<^verbatim>\<open>String.fromCharCode(...audio)\<close> and
  \<^verbatim>\<open>Uint8Array.from(str, (c) => c.charCodeAt(0))\<close>.\<close>

definition fromCharCode :: "Uint8Array \<Rightarrow> string" where
  "fromCharCode audio = map (\<lambda>b. char_of (unat b)) audio"

definition Uint8Array_from :: "string \<Rightarrow> Uint8Array" where
  "Uint8Array_from str = map (\<lambda>c. of_nat (of_char c)) str"

section \<open>JSON text written to the channel\<close>

text \<open>
  The values that the SDK hands to \<^verbatim>\<open>JSON.stringify\<close> and gets from \<^verbatim>\<open>JSON.parse\<close>:
  strings, numbers, and objects whose properties keep their insertion order. A number is
  an integer or \<^verbatim>\<open>NaN\<close>, which JSON text cannot carry and \<^verbatim>\<open>JSON.stringify\<close> writes as
  \<^verbatim>\<open>null\<close>; the decimal formatting of fractional numbers is not modelled.
\<close>

datatype numeric = NaN | Finite int

datatype json =
    JNull
  | JBool bool
  | JNumber numeric
  | JString string
  | JArray "json list"
  | JObject "(string \<times> json) list"

definition hex_digit :: "nat \<Rightarrow> char" where
  "hex_digit n = ''0123456789abcdef'' ! n"

definition quote_char :: "char \<Rightarrow> string" where
  "quote_char c =
     (if c = CHR 0x08 then [CHR 0x5C, CHR ''b'']
      else if c = CHR 0x09 then [CHR 0x5C, CHR ''t'']
      else if c = CHR 0x0A then [CHR 0x5C, CHR ''n'']
      else if c = CHR 0x0C then [CHR 0x5C, CHR ''f'']
      else if c = CHR 0x0D then [CHR 0x5C, CHR ''r'']
      else if c = CHR 0x22 then [CHR 0x5C, CHR 0x22]
      else if c = CHR 0x5C then [CHR 0x5C, CHR 0x5C]
      else if (of_char c :: nat) < 32
        then [CHR 0x5C, CHR ''u'', CHR ''0'', CHR ''0'',
              hex_digit ((of_char c :: nat) div 16), hex_digit ((of_char c :: nat) mod 16)]
      else [c])"

definition quote :: "string \<Rightarrow> string" where
  "quote s = [CHR 0x22] @ concat (map quote_char s) @ [CHR 0x22]"

fun show_nat :: "nat \<Rightarrow> string" where
  "show_nat n =
     (if n < 10 then [char_of (48 + n)] else show_nat (n div 10) @ [char_of (48 + n mod 10)])"

declare show_nat.simps [simp del]

definition show_int :: "int \<Rightarrow> string" where
  "show_int i = (if i < 0 then CHR ''-'' # show_nat (nat (- i)) else show_nat (nat i))"

fun join :: "string \<Rightarrow> string list \<Rightarrow> string" where
  "join sep [] = []"
| "join sep [x] = x"
| "join sep (x # y # ys) = x @ sep @ join sep (y # ys)"

fun JSON_stringify :: "json \<Rightarrow> string" where
  "JSON_stringify JNull = ''null''"
| "JSON_stringify (JBool b) = (if b then ''true'' else ''false'')"
| "JSON_stringify (JNumber n) = (case n of NaN \<Rightarrow> ''null'' | Finite i \<Rightarrow> show_int i)"
| "JSON_stringify (JString s) = quote s"
| "JSON_stringify (JArray xs) = ''['' @ join '','' (map JSON_stringify xs) @ '']''"
| "JSON_stringify (JObject kvs) =
     ''{'' @ join '','' (map (\<lambda>kv. quote (fst kv) @ '':'' @ JSON_stringify (snd kv)) kvs) @ ''}''"

section \<open>The duplex channel\<close>

text \<open>The streams use two operations of the injected \<^verbatim>\<open>WebSocket\<close>: \<^verbatim>\<open>send\<close>, which
  appends to what has been written, and \<^verbatim>\<open>close\<close>.\<close>

record WebSocket =
  sentMessages :: "string list"
  closed :: bool

definition WebSocket_new :: WebSocket where
  "WebSocket_new = \<lparr>sentMessages = [], closed = False\<rparr>"

definition ws_send :: "string \<Rightarrow> WebSocket \<Rightarrow> WebSocket" where
  "ws_send d w = w\<lparr>sentMessages := sentMessages w @ [d]\<rparr>"

definition ws_close :: "WebSocket \<Rightarrow> WebSocket" where
  "ws_close w = w\<lparr>closed := True\<rparr>"

text \<open>What the channel delivers to the handlers that \<^verbatim>\<open>setupMessageHandler\<close> installs:
  a message whose text \<^verbatim>\<open>JSON.parse\<close> either rejects (\<open>Inl\<close>) or turns into a server
  message of the declared type (\<open>Inr\<close>), an error event, or a close event.\<close>

datatype 'm ws_event =
    MessageEvent "error + 'm"
  | ErrorEvent
  | CloseEvent (wasClean: bool) (close_code: number) (reason: string)

section \<open>Session state shared by both directions\<close>

record ('r, 'm) Stream =
  ws :: WebSocket
  requestId :: string
  sampleRate :: number
  isReady :: bool
  readyPromise :: "'r promise"
  endPromise :: "unit promise"
  messageQueue :: "'m list"

definition readyResolve :: "'r \<Rightarrow> ('r, 'm, 'z) Stream_scheme \<Rightarrow> ('r, 'm, 'z) Stream_scheme" where
  "readyResolve v s = s\<lparr>readyPromise := resolve v (readyPromise s)\<rparr>"

definition readyReject :: "error \<Rightarrow> ('r, 'm, 'z) Stream_scheme \<Rightarrow> ('r, 'm, 'z) Stream_scheme" where
  "readyReject e s = s\<lparr>readyPromise := reject e (readyPromise s)\<rparr>"

definition endResolve :: "('r, 'm, 'z) Stream_scheme \<Rightarrow> ('r, 'm, 'z) Stream_scheme" where
  "endResolve s = s\<lparr>endPromise := resolve () (endPromise s)\<rparr>"

definition endReject :: "error \<Rightarrow> ('r, 'm, 'z) Stream_scheme \<Rightarrow> ('r, 'm, 'z) Stream_scheme" where
  "endReject e s = s\<lparr>endPromise := reject e (endPromise s)\<rparr>"

definition onerror :: "('r, 'm, 'z) Stream_scheme \<Rightarrow> ('r, 'm, 'z) Stream_scheme" where
  "onerror s =
     (let error = ConnectionError ''WebSocket error occurred''
      in endReject error (readyReject error s))"

definition onclose ::
  "bool \<Rightarrow> number \<Rightarrow> string \<Rightarrow> ('r, 'm, 'z) Stream_scheme \<Rightarrow> ('r, 'm, 'z) Stream_scheme" where
  "onclose clean c rsn s =
     (if \<not> clean \<and> c \<noteq> 1000
      then (let error = WebSocketError (''WebSocket closed unexpectedly: '' @ rsn) (Some c)
            in endReject error (readyReject error s))
      else s)"

definition not_ready_error :: error where
  "not_ready_error = WebSocketError ''Stream is not ready. Call waitReady() first.'' None"

definition end_of_stream_message :: json where
  "end_of_stream_message = JObject [(''type'', JString ''end_of_stream'')]"

definition sendEndOfStream :: "('r, 'm, 'z) Stream_scheme \<Rightarrow> ('r, 'm, 'z) Stream_scheme" where
  "sendEndOfStream s = s\<lparr>ws := ws_send (JSON_stringify end_of_stream_message) (ws s)\<rparr>"

definition close :: "('r, 'm, 'z) Stream_scheme \<Rightarrow> ('r, 'm, 'z) Stream_scheme" where
  "close s = s\<lparr>ws := ws_close (ws s)\<rparr>"

definition getRequestId :: "('r, 'm, 'z) Stream_scheme \<Rightarrow> string" where
  "getRequestId s = requestId s"

text \<open>\<^verbatim>\<open>waitReady\<close> hands out the ready promise itself, so every caller, early or late,
  sees the one state of that promise.\<close>

definition waitReady :: "('r, 'm, 'z) Stream_scheme \<Rightarrow> 'r promise" where
  "waitReady s = readyPromise s"

section \<open>Text to speech: \<^verbatim>\<open>TTSStream\<close>\<close>

datatype TTSServerMessage =
    TTSReady string
  | TTSAudio string
  | TTSError string number
  | TTSEndOfStream

record TTSStream = "(unit, TTSServerMessage) Stream" +
  audioChunks :: "Uint8Array list"

definition TTSStream_new :: "WebSocket \<Rightarrow> TTSStream" where
  "TTSStream_new w =
     \<lparr>ws = w, requestId = [], sampleRate = 48000, isReady = False,
      readyPromise = Pending, endPromise = Pending, messageQueue = [],
      audioChunks = []\<rparr>"

definition TTS_onmessage :: "error + TTSServerMessage \<Rightarrow> TTSStream \<Rightarrow> TTSStream" where
  "TTS_onmessage d s =
     (case d of
        Inl e \<Rightarrow> endReject e s
      | Inr message \<Rightarrow>
          (let s1 = s\<lparr>messageQueue := messageQueue s @ [message]\<rparr>
           in case message of
                TTSReady rid \<Rightarrow> readyResolve () (s1\<lparr>requestId := rid, isReady := True\<rparr>)
              | TTSAudio a \<Rightarrow>
                  (case atob a of
                     Inl e \<Rightarrow> endReject e s1
                   | Inr bin \<Rightarrow> s1\<lparr>audioChunks := audioChunks s1 @ [Uint8Array_from bin]\<rparr>)
              | TTSEndOfStream \<Rightarrow> endResolve s1
              | TTSError m c \<Rightarrow>
                  (let error = WebSocketError m (Some c)
                   in endReject error (readyReject error s1))))"

fun TTS_handle :: "TTSServerMessage ws_event \<Rightarrow> TTSStream \<Rightarrow> TTSStream" where
  "TTS_handle (MessageEvent d) s = TTS_onmessage d s"
| "TTS_handle ErrorEvent s = onerror s"
| "TTS_handle (CloseEvent clean c rsn) s = onclose clean c rsn s"

definition TTS_run :: "TTSServerMessage ws_event list \<Rightarrow> TTSStream \<Rightarrow> TTSStream" where
  "TTS_run evs s = fold TTS_handle evs s"



record TTSResult =
  raw_data :: Uint8Array
  sample_rate :: number
  request_id :: string

text \<open>\<^verbatim>\<open>rawData.set(chunk, offset)\<close> on a typed array: the chunk has to fit.\<close>

definition set_at :: "Uint8Array \<Rightarrow> nat \<Rightarrow> Uint8Array \<Rightarrow> Uint8Array option" where
  "set_at chunk offset rawData =
     (if offset + length chunk \<le> length rawData
      then Some (take offset rawData @ chunk @ drop (offset + length chunk) rawData)
      else None)"

fun copy_chunks :: "Uint8Array list \<Rightarrow> nat \<Rightarrow> Uint8Array \<Rightarrow> Uint8Array option" where
  "copy_chunks [] offset rawData = Some rawData"
| "copy_chunks (chunk # cs) offset rawData =
     (case set_at chunk offset rawData of
        None \<Rightarrow> None
      | Some r \<Rightarrow> copy_chunks cs (offset + length chunk) r)"

definition totalLength :: "Uint8Array list \<Rightarrow> nat" where
  "totalLength chunks = fold (\<lambda>chunk sum. sum + length chunk) chunks 0"

text \<open>\<^verbatim>\<open>collect\<close> on a session in state \<open>s\<close>: suspended while the end promise is pending,
  failed with its reason when it is rejected, and otherwise the concatenated audio.\<close>

definition collect_rawData :: "Uint8Array list \<Rightarrow> Uint8Array option" where
  "collect_rawData chunks = copy_chunks chunks 0 (replicate (totalLength chunks) 0)"

definition collect :: "TTSStream \<Rightarrow> TTSResult promise" where
  "collect s =
     (case endPromise s of
        Pending \<Rightarrow> Pending
      | Rejected e \<Rightarrow> Rejected e
      | Fulfilled _ \<Rightarrow>
          (case collect_rawData (audioChunks s) of
             None \<Rightarrow> Rejected RangeError
           | Some rawData \<Rightarrow>
               Fulfilled \<lparr>raw_data = rawData, sample_rate = sampleRate s,
                          request_id = requestId s\<rparr>))"

text \<open>A call of \<^verbatim>\<open>collect\<close> made in state \<open>s\<close>, with the events \<open>evs\<close> still to come:
  the continuation after \<^verbatim>\<open>await this.endPromise\<close> runs right after the event that settles
  the promise, before the next event is handled.\<close>

fun collect_during :: "TTSStream \<Rightarrow> TTSServerMessage ws_event list \<Rightarrow> TTSResult promise" where
  "collect_during s [] = collect s"
| "collect_during s (ev # evs) =
     (if endPromise s = Pending then collect_during (TTS_handle ev s) evs else collect s)"

subsection \<open>The factory \<^verbatim>\<open>TTS.stream\<close>\<close>

datatype TTSOutputFormat = wav | pcm | opus | ulaw_8000 | alaw_8000 | pcm_16000 | pcm_24000

fun TTSOutputFormat_string :: "TTSOutputFormat \<Rightarrow> string" where
  "TTSOutputFormat_string wav = ''wav''"
| "TTSOutputFormat_string pcm = ''pcm''"
| "TTSOutputFormat_string opus = ''opus''"
| "TTSOutputFormat_string ulaw_8000 = ''ulaw_8000''"
| "TTSOutputFormat_string alaw_8000 = ''alaw_8000''"
| "TTSOutputFormat_string pcm_16000 = ''pcm_16000''"
| "TTSOutputFormat_string pcm_24000 = ''pcm_24000''"

record TTSJsonConfig =
  padding_bonus :: "numeric option"

record TTSSetupParams =
  voice_id :: string
  output_format :: TTSOutputFormat
  tts_model_name :: "string option"
  json_config :: "TTSJsonConfig option"

text \<open>\<^verbatim>\<open>params.model_name || "default"\<close>: an absent or empty name gives the default.\<close>

definition or_default :: "string option \<Rightarrow> string" where
  "or_default m = (case m of None \<Rightarrow> ''default'' | Some n \<Rightarrow> (if n = [] then ''default'' else n))"

text \<open>The configuration object as \<^verbatim>\<open>JSON.stringify\<close> sees it: a property that is
  \<^verbatim>\<open>undefined\<close> is left out.\<close>

definition json_config_object :: "TTSJsonConfig \<Rightarrow> json" where
  "json_config_object c =
     JObject (case padding_bonus c of None \<Rightarrow> [] | Some n \<Rightarrow> [(''padding_bonus'', JNumber n)])"

definition TTSSetupMessage :: "TTSSetupParams \<Rightarrow> json" where
  "TTSSetupMessage params =
     JObject ([(''type'', JString ''setup''),
               (''voice_id'', JString (voice_id params)),
               (''output_format'', JString (TTSOutputFormat_string (output_format params))),
               (''model_name'', JString (or_default (tts_model_name params)))]
              @ (case json_config params of
                   None \<Rightarrow> []
                 | Some c \<Rightarrow> [(''json_config'', json_config_object c)]))"

text \<open>The body of the factory's \<^verbatim>\<open>onopen\<close> handler writes the setup envelope. The
  factory's promise gives the stream when the channel opens, and fails when the channel
  reports an error first.\<close>

definition TTS_onopen :: "TTSSetupParams \<Rightarrow> TTSStream \<Rightarrow> TTSStream" where
  "TTS_onopen params stream =
     stream\<lparr>ws := ws_send (JSON_stringify (TTSSetupMessage params)) (ws stream)\<rparr>"

definition TTS_stream :: "TTSSetupParams \<Rightarrow> bool \<Rightarrow> error + TTSStream" where
  "TTS_stream params opens =
     (let stream = TTSStream_new WebSocket_new
      in if opens then Inr (TTS_onopen params stream)
         else Inl (ConnectionError ''Failed to connect to TTS WebSocket''))"

section \<open>Speech to text: \<^verbatim>\<open>STTStream\<close>\<close>

record STTReadyMessage =
  ready_request_id :: string
  ready_model_name :: string
  ready_sample_rate :: number
  ready_frame_size :: number
  delay_in_tokens :: number
  text_stream_names :: "string list"

record STTTextMessage =
  text_of :: string
  start_s :: number
  stream_id :: "number option"

record VADPrediction =
  horizon_s :: number
  inactivity_prob :: number

record STTStepMessage =
  vad :: "VADPrediction list"
  step_idx :: number
  step_duration_s :: number
  total_duration_s :: number

record STTEndTextMessage =
  stop_s :: number
  end_stream_id :: "number option"

datatype STTServerMessage =
    STTReady STTReadyMessage
  | STTText STTTextMessage
  | STTStep STTStepMessage
  | STTEndText STTEndTextMessage
  | STTError string number
  | STTEndOfStream

record STTStream = "(STTReadyMessage, STTServerMessage) Stream" +
  frameSize :: number
  textResults :: "STTTextMessage list"
  vadResults :: "STTStepMessage list"

definition STTStream_new :: "WebSocket \<Rightarrow> STTStream" where
  "STTStream_new w =
     \<lparr>ws = w, requestId = [], sampleRate = 24000, isReady = False,
      readyPromise = Pending, endPromise = Pending, messageQueue = [],
      frameSize = 1920, textResults = [], vadResults = []\<rparr>"

definition STT_onmessage :: "error + STTServerMessage \<Rightarrow> STTStream \<Rightarrow> STTStream" where
  "STT_onmessage d s =
     (case d of
        Inl e \<Rightarrow> endReject e s
      | Inr message \<Rightarrow>
          (let s1 = s\<lparr>messageQueue := messageQueue s @ [message]\<rparr>
           in case message of
                STTReady r \<Rightarrow>
                  readyResolve r
                    (s1\<lparr>requestId := ready_request_id r, sampleRate := ready_sample_rate r,
                        frameSize := ready_frame_size r, isReady := True\<rparr>)
              | STTText t \<Rightarrow> s1\<lparr>textResults := textResults s1 @ [t]\<rparr>
              | STTStep v \<Rightarrow> s1\<lparr>vadResults := vadResults s1 @ [v]\<rparr>
              | STTEndText _ \<Rightarrow> s1
              | STTEndOfStream \<Rightarrow> endResolve s1
              | STTError m c \<Rightarrow>
                  (let error = WebSocketError m (Some c)
                   in endReject error (readyReject error s1))))"

fun STT_handle :: "STTServerMessage ws_event \<Rightarrow> STTStream \<Rightarrow> STTStream" where
  "STT_handle (MessageEvent d) s = STT_onmessage d s"
| "STT_handle ErrorEvent s = onerror s"
| "STT_handle (CloseEvent clean c rsn) s = onclose clean c rsn s"

definition STT_run :: "STTServerMessage ws_event list \<Rightarrow> STTStream \<Rightarrow> STTStream" where
  "STT_run evs s = fold STT_handle evs s"

definition audio_message :: "string \<Rightarrow> json" where
  "audio_message base64Audio = JObject [(''type'', JString ''audio''), (''audio'', JString base64Audio)]"

definition sendAudio :: "Uint8Array \<Rightarrow> STTStream \<Rightarrow> error + STTStream" where
  "sendAudio audio s =
     (if \<not> isReady s then Inl not_ready_error
      else (let base64Audio = btoa (fromCharCode audio)
            in Inr (s\<lparr>ws := ws_send (JSON_stringify (audio_message base64Audio)) (ws s)\<rparr>)))"

definition collectText :: "STTStream \<Rightarrow> string promise" where
  "collectText s =
     (case endPromise s of
        Pending \<Rightarrow> Pending
      | Rejected e \<Rightarrow> Rejected e
      | Fulfilled _ \<Rightarrow> Fulfilled (join '' '' (map text_of (textResults s))))"

fun collectText_during :: "STTStream \<Rightarrow> STTServerMessage ws_event list \<Rightarrow> string promise" where
  "collectText_during s [] = collectText s"
| "collectText_during s (ev # evs) =
     (if endPromise s = Pending then collectText_during (STT_handle ev s) evs else collectText s)"

text \<open>A call of \<^verbatim>\<open>waitReady\<close> made in state \<open>s\<close> with the events \<open>evs\<close> still to come: what
  the caller gets once they have been handled.\<close>

definition TTS_waitReady_during :: "TTSStream \<Rightarrow> TTSServerMessage ws_event list \<Rightarrow> unit promise" where
  "TTS_waitReady_during s evs = waitReady (TTS_run evs s)"

definition STT_waitReady_during ::
  "STTStream \<Rightarrow> STTServerMessage ws_event list \<Rightarrow> STTReadyMessage promise" where
  "STT_waitReady_during s evs = waitReady (STT_run evs s)"

subsection \<open>The factory \<^verbatim>\<open>STT.stream\<close> and \<^verbatim>\<open>STT.transcribe\<close>\<close>

datatype STTInputFormat = stt_pcm | stt_wav | stt_opus

fun STTInputFormat_string :: "STTInputFormat \<Rightarrow> string" where
  "STTInputFormat_string stt_pcm = ''pcm''"
| "STTInputFormat_string stt_wav = ''wav''"
| "STTInputFormat_string stt_opus = ''opus''"

record STTSetupParams =
  input_format :: STTInputFormat
  stt_model_name :: "string option"

definition STTSetupMessage :: "STTSetupParams \<Rightarrow> json" where
  "STTSetupMessage params =
     JObject [(''type'', JString ''setup''),
              (''input_format'', JString (STTInputFormat_string (input_format params))),
              (''model_name'', JString (or_default (stt_model_name params)))]"

definition STT_onopen :: "STTSetupParams \<Rightarrow> STTStream \<Rightarrow> STTStream" where
  "STT_onopen params stream =
     stream\<lparr>ws := ws_send (JSON_stringify (STTSetupMessage params)) (ws stream)\<rparr>"

definition STT_stream :: "STTSetupParams \<Rightarrow> bool \<Rightarrow> error + STTStream" where
  "STT_stream params opens =
     (let stream = STTStream_new WebSocket_new
      in if opens then Inr (STT_onopen params stream)
         else Inl (ConnectionError ''Failed to connect to STT WebSocket''))"

definition chunkSize :: nat where
  "chunkSize = 1920 * 2"

text \<open>\<^verbatim>\<open>audio.slice(b, e)\<close> for \<open>b \<le> e\<close>.\<close>

definition slice :: "nat \<Rightarrow> nat \<Rightarrow> 'a list \<Rightarrow> 'a list" where
  "slice b e xs = drop b (take e xs)"

text \<open>The loop of \<^verbatim>\<open>transcribe\<close> from index \<open>i\<close>; a throwing \<^verbatim>\<open>sendAudio\<close> ends it.\<close>

function transcribe_loop :: "nat \<Rightarrow> Uint8Array \<Rightarrow> STTStream \<Rightarrow> error option \<times> STTStream" where
  "transcribe_loop i audio s =
     (if i < length audio
      then (case sendAudio (slice i (min (i + chunkSize) (length audio)) audio) s of
              Inl e \<Rightarrow> (Some e, s)
            | Inr s' \<Rightarrow> transcribe_loop (i + chunkSize) audio s')
      else (None, s))"
  by pat_completeness auto
termination
  by (relation "measure (\<lambda>(i, audio, s). length audio - i)") (auto simp add: chunkSize_def)

declare transcribe_loop.simps [simp del]

text \<open>The slices that the loop takes from index \<open>i\<close> on, in order.\<close>

function transcribe_chunks :: "nat \<Rightarrow> Uint8Array \<Rightarrow> Uint8Array list" where
  "transcribe_chunks i audio =
     (if i < length audio
      then slice i (min (i + chunkSize) (length audio)) audio # transcribe_chunks (i + chunkSize) audio
      else [])"
  by pat_completeness auto
termination
  by (relation "measure (\<lambda>(i, audio). length audio - i)") (auto simp add: chunkSize_def)

declare transcribe_chunks.simps [simp del]

text \<open>\<^verbatim>\<open>await stream.waitReady()\<close>: events are handled until the ready promise is settled;
  the caller continues in the state right after the settling event.\<close>

fun await_ready ::
  "STTStream \<Rightarrow> STTServerMessage ws_event list \<Rightarrow> STTStream \<times> STTServerMessage ws_event list" where
  "await_ready s [] = (s, [])"
| "await_ready s (ev # evs) =
     (if readyPromise s = Pending then await_ready (STT_handle ev s) evs else (s, ev # evs))"

text \<open>\<^verbatim>\<open>STT.transcribe\<close> against the events \<open>evs\<close> that the channel delivers after it has
  opened: the promise it returns, and the session as it is left.\<close>

definition STT_transcribe ::
  "STTSetupParams \<Rightarrow> Uint8Array \<Rightarrow> bool \<Rightarrow> STTServerMessage ws_event list
     \<Rightarrow> string promise \<times> STTStream option" where
  "STT_transcribe params audio opens evs =
     (case STT_stream params opens of
        Inl e \<Rightarrow> (Rejected e, None)
      | Inr stream \<Rightarrow>
          (case await_ready stream evs of
             (s1, rest) \<Rightarrow>
               (case waitReady s1 of
                  Pending \<Rightarrow> (Pending, Some s1)
                | Rejected e \<Rightarrow> (Rejected e, Some (STT_run rest s1))
                | Fulfilled _ \<Rightarrow>
                    (case transcribe_loop 0 audio s1 of
                       (Some e, s2) \<Rightarrow> (Rejected e, Some (STT_run rest s2))
                     | (None, s2) \<Rightarrow>
                         (let s3 = sendEndOfStream s2
                          in (collectText_during s3 rest, Some (STT_run rest s3)))))))"

section \<open>Iterating over a session\<close>




























section \<open>REST errors: \<^verbatim>\<open>handleAPIError\<close>\<close>



















section \<open>Reading JSON text: \<^verbatim>\<open>JSON.parse\<close>\<close>














section \<open>Properties\<close>

subsection \<open>Promises\<close>

lemma resolve_simps:
  "resolve v Pending = Fulfilled v"
  "resolve v (Fulfilled w) = Fulfilled w"
  "resolve v (Rejected e) = Rejected e"
  by (simp_all add: resolve_def)

lemma reject_simps:
  "reject e Pending = Rejected e"
  "reject e (Fulfilled w) = Fulfilled w"
  "reject e (Rejected e') = Rejected e'"
  by (simp_all add: reject_def)

subsection \<open>Base64 decoding inverts encoding\<close>

lemma index_of_nth:
  "distinct xs \<Longrightarrow> i < length xs \<Longrightarrow> index_of (xs ! i) xs = Some i"
proof (induction xs arbitrary: i)
  case Nil
  then show ?case by simp
next
  case (Cons x xs)
  show ?case
  proof (cases i)
    case 0
    then show ?thesis by simp
  next
    case (Suc j)
    with Cons.prems have "xs ! j \<in> set xs" "x \<notin> set xs" "j < length xs" by auto
    then have "xs ! j \<noteq> x" by auto
    with Suc Cons show ?thesis by auto
  qed
qed

lemma length_b64_alphabet: "length b64_alphabet = 64"
  by (simp add: b64_alphabet_def)

lemma distinct_b64_alphabet: "distinct b64_alphabet"
  by (simp add: b64_alphabet_def)

lemma b64_index_char: "i < 64 \<Longrightarrow> b64_index (b64_char i) = Some i"
  unfolding b64_index_def b64_char_def
  by (rule index_of_nth) (simp_all add: distinct_b64_alphabet length_b64_alphabet)

lemma b64_char_in_alphabet: "i < 64 \<Longrightarrow> b64_char i \<in> set b64_alphabet"
  unfolding b64_char_def by (rule nth_mem) (simp add: length_b64_alphabet)

lemma eq_notin_alphabet: "CHR ''='' \<notin> set b64_alphabet"
  by (simp add: b64_alphabet_def)

lemma ws_notin_alphabet: "c \<in> set b64_alphabet \<Longrightarrow> \<not> ascii_whitespace c"
  by (auto simp add: b64_alphabet_def ascii_whitespace_def)

lemma eq_not_whitespace: "\<not> ascii_whitespace (CHR ''='')"
  by (simp add: ascii_whitespace_def)

lemma sextet_bounds:
  fixes a b c :: nat
  assumes "a < 256" "b < 256" "c < 256"
  shows "a div 4 < 64" "(a mod 4) * 16 + b div 16 < 64" "(b mod 16) * 4 + c div 64 < 64"
    "c mod 64 < 64" "(b mod 16) * 4 < 64" "(a mod 4) * 16 < 64"
  using assms by simp_all

lemma octet_recover:
  fixes a b c :: nat
  assumes "a < 256" "b < 256" "c < 256"
  shows "a div 4 * 4 + ((a mod 4) * 16 + b div 16) div 16 = a"
    "(((a mod 4) * 16 + b div 16) mod 16) * 16 + ((b mod 16) * 4 + c div 64) div 4 = b"
    "(((b mod 16) * 4 + c div 64) mod 4) * 64 + c mod 64 = c"
    "(((a mod 4) * 16 + b div 16) mod 16) * 16 + ((b mod 16) * 4) div 4 = b"
    "a div 4 * 4 + ((a mod 4) * 16) div 16 = a"
  using assms by simp_all

lemma sextets_lt: "\<forall>x\<in>set xs. x < 256 \<Longrightarrow> \<forall>y\<in>set (sextets xs). y < 64"
proof (induction xs rule: sextets.induct)
  case (1 a b c rest)
  then have "a < 256" "b < 256" "c < 256" by simp_all
  from sextet_bounds(1-4) [OF this] 1 show ?case by simp
next
  case (2 a b)
  then have "a < 256" "b < 256" by simp_all
  from sextet_bounds(1,2,5) [OF this this(2)] show ?case by simp
next
  case (3 a)
  then have "a < 256" by simp
  from sextet_bounds(1,6) [OF this this this] show ?case by simp
next
  case 4
  show ?case by simp
qed

lemma octets_sextets: "\<forall>x\<in>set xs. x < 256 \<Longrightarrow> octets (sextets xs) = xs"
proof (induction xs rule: sextets.induct)
  case (1 a b c rest)
  then have "a < 256" "b < 256" "c < 256" by simp_all
  from octet_recover(1-3) [OF this] 1 show ?case by (simp del: mult_Suc_right)
next
  case (2 a b)
  then have "a < 256" "b < 256" by simp_all
  from octet_recover(1,4) [OF this this(2)] show ?case by simp
next
  case (3 a)
  then have "a < 256" by simp
  from octet_recover(5) [OF this this this] show ?case by simp
next
  case 4
  show ?case by simp
qed

lemma length_sextets: "length (sextets xs) = (4 * length xs + 2) div 3"
  by (induction xs rule: sextets.induct) simp_all

lemma those_list_map_Some: "those_list (map Some xs) = Some xs"
  by (induction xs) simp_all

lemma map_b64_index_char:
  "\<forall>y\<in>set sx. y < 64 \<Longrightarrow> map b64_index (map b64_char sx) = map Some sx"
  by (induction sx) (simp_all add: b64_index_char)

lemma filter_ws_b64:
  "\<forall>y\<in>set sx. y < 64 \<Longrightarrow>
   filter (\<lambda>c. \<not> ascii_whitespace c) (map b64_char sx @ padding n) = map b64_char sx @ padding n"
  by (rule filter_True)
     (auto simp add: padding_def eq_not_whitespace ws_notin_alphabet b64_char_in_alphabet)

lemma last_b64_not_eq:
  "\<forall>y\<in>set sx. y < 64 \<Longrightarrow> sx \<noteq> [] \<Longrightarrow> last (map b64_char sx) \<noteq> CHR ''=''"
proof -
  assume a: "\<forall>y\<in>set sx. y < 64" and ne: "sx \<noteq> []"
  have "last (map b64_char sx) = b64_char (last sx)" using ne by (simp add: last_map)
  moreover have "last sx < 64" using a ne by simp
  ultimately show ?thesis
    using b64_char_in_alphabet eq_notin_alphabet by metis
qed

lemma strip_padding_btoa:
  assumes "\<forall>y\<in>set (sextets xs). y < 64"
  shows "strip_padding (map b64_char (sextets xs) @ padding (length xs)) = map b64_char (sextets xs)"
proof -
  let ?sx = "sextets xs"
  let ?n = "length xs"
  have len: "length ?sx = (4 * ?n + 2) div 3" by (rule length_sextets)
  consider (z) "?n mod 3 = 0" | (o) "?n mod 3 = 1" | (t) "?n mod 3 = 2" by linarith
  then show ?thesis
  proof cases
    case z
    then have pad: "padding ?n = []" by (simp add: padding_def)
    show ?thesis
    proof (cases "?sx = []")
      case True
      then show ?thesis by (simp add: pad strip_padding_def)
    next
      case False
      then have "last (map b64_char ?sx) \<noteq> CHR ''=''" using assms by (simp add: last_b64_not_eq)
      then show ?thesis by (simp add: pad strip_padding_def)
    qed
  next
    case o
    then have pad: "padding ?n = ''==''" by (simp add: padding_def)
    from o have "length ?sx mod 4 = 2" unfolding len by presburger
    then have "(length ?sx + 2) mod 4 = 0" by presburger
    then show ?thesis by (simp add: pad strip_padding_def butlast_append)
  next
    case t
    then have pad: "padding ?n = ''=''" by (simp add: padding_def)
    from t have l3: "length ?sx mod 4 = 3" unfolding len by presburger
    then have l0: "(length ?sx + 1) mod 4 = 0" by presburger
    from l3 have ne: "?sx \<noteq> []" by auto
    then have "last (map b64_char ?sx) \<noteq> CHR ''=''" using assms by (simp add: last_b64_not_eq)
    then show ?thesis using l0 ne by (simp add: pad strip_padding_def butlast_append)
  qed
qed

lemma length_sextets_mod4: "length (sextets xs) mod 4 \<noteq> 1"
  unfolding length_sextets by presburger

lemma atob_btoa: "atob (btoa s) = Inr s"
proof -
  let ?xs = "map of_char s :: nat list"
  have lt: "\<forall>x\<in>set ?xs. x < 256" by simp
  then have sx: "\<forall>y\<in>set (sextets ?xs). y < 64" by (rule sextets_lt)
  have f: "filter (\<lambda>c. \<not> ascii_whitespace c) (btoa s) = btoa s"
    unfolding btoa_def using sx by (rule filter_ws_b64)
  have st: "strip_padding (btoa s) = map b64_char (sextets ?xs)"
    unfolding btoa_def using strip_padding_btoa [OF sx] by simp
  have ix: "those_list (map b64_index (map b64_char (sextets ?xs))) = Some (sextets ?xs)"
    unfolding map_b64_index_char [OF sx] by (rule those_list_map_Some)
  have oc: "map char_of (octets (sextets ?xs)) = s"
    using lt by (simp add: octets_sextets comp_def)
  show ?thesis
    unfolding atob_def f st Let_def using length_sextets_mod4 [of ?xs] ix oc by simp
qed

lemma Uint8Array_from_fromCharCode: "Uint8Array_from (fromCharCode a) = a"
proof -
  have "\<And>b :: byte. unat b mod 256 = unat b"
  proof -
    fix b :: byte
    have "unat b < 2 ^ LENGTH(8)" by (rule unsigned_less)
    then show "unat b mod 256 = unat b" by simp
  qed
  then show ?thesis
    by (simp add: Uint8Array_from_def fromCharCode_def comp_def)
qed


subsection \<open>The sample rate of a text-to-speech session\<close>

lemma sampleRate_TTS_handle: "sampleRate (TTS_handle ev s) = sampleRate s"
proof (cases ev)
  case (MessageEvent d)
  show ?thesis
  proof (cases d)
    case (Inl e)
    with MessageEvent show ?thesis by (simp add: TTS_onmessage_def endReject_def)
  next
    case (Inr message)
    with MessageEvent show ?thesis
      by (cases message)
         (simp_all add: TTS_onmessage_def Let_def readyResolve_def readyReject_def
            endResolve_def endReject_def split: sum.split)
  qed
next
  case ErrorEvent
  then show ?thesis by (simp add: onerror_def Let_def readyReject_def endReject_def)
next
  case (CloseEvent clean c rsn)
  then show ?thesis by (simp add: onclose_def Let_def readyReject_def endReject_def)
qed

lemma sampleRate_TTS_run: "sampleRate (TTS_run evs s) = sampleRate s"
  unfolding TTS_run_def by (induction evs arbitrary: s) (simp_all add: sampleRate_TTS_handle)

lemma sampleRate_TTS_stream: "TTS_stream params opens = Inr s \<Longrightarrow> sampleRate s = 48000"
  by (auto simp add: TTS_stream_def TTS_onopen_def TTSStream_new_def Let_def split: if_splits)

lemma collect_sample_rate: "collect s = Fulfilled r \<Longrightarrow> sample_rate r = sampleRate s"
  by (auto simp add: collect_def split: promise.splits option.splits)

text \<open>
  C9. Whatever setup parameters a text-to-speech session was opened with, and whatever
  events the channel delivers afterwards, a result that \<^verbatim>\<open>collect\<close> returns, whether the call
  is made before or after those events, reports the sample rate 48000.
\<close>

theorem C9_collect_sample_rate_48000:
  assumes "TTS_stream params opens = Inr s0"
  shows "(collect (TTS_run evs s0) = Fulfilled r \<longrightarrow> sample_rate r = 48000) \<and>
         (collect_during (TTS_run pre s0) post = Fulfilled r \<longrightarrow> sample_rate r = 48000)"
proof -
  have during: "collect_during s post = Fulfilled r \<Longrightarrow> sample_rate r = sampleRate s" for s
  proof (induction post arbitrary: s)
    case Nil
    then show ?case by (simp add: collect_sample_rate)
  next
    case (Cons ev evs)
    show ?case
    proof (cases "endPromise s = Pending")
      case True
      with Cons.prems have "collect_during (TTS_handle ev s) evs = Fulfilled r" by simp
      then have "sample_rate r = sampleRate (TTS_handle ev s)" by (rule Cons.IH)
      then show ?thesis by (simp add: sampleRate_TTS_handle)
    next
      case False
      with Cons.prems show ?thesis by (simp add: collect_sample_rate)
    qed
  qed
  from assms have s0: "sampleRate s0 = 48000" by (rule sampleRate_TTS_stream)
  show ?thesis
    using collect_sample_rate [of "TTS_run evs s0" r] during [of "TTS_run pre s0"] s0
    by (simp add: sampleRate_TTS_run)
qed

theorem C9_collect_sample_rate_48000_witness:
  "TTS_stream \<lparr>voice_id = ''v1'', output_format = pcm, tts_model_name = None, json_config = None\<rparr> True
     = Inr (TTS_onopen \<lparr>voice_id = ''v1'', output_format = pcm, tts_model_name = None, json_config = None\<rparr>
             (TTSStream_new WebSocket_new)) \<and>
   collect (TTS_run [MessageEvent (Inr (TTSReady ''req-123'')), MessageEvent (Inr (TTSAudio ''AQID'')),
                     MessageEvent (Inr (TTSAudio ''BAUG'')), MessageEvent (Inr TTSEndOfStream)]
            (TTS_onopen \<lparr>voice_id = ''v1'', output_format = pcm, tts_model_name = None, json_config = None\<rparr>
              (TTSStream_new WebSocket_new)))
     = Fulfilled \<lparr>raw_data = [1, 2, 3, 4, 5, 6], sample_rate = 48000, request_id = ''req-123''\<rparr> \<and>
   collect_during (TTS_run [MessageEvent (Inr (TTSReady ''req-123''))]
            (TTS_onopen \<lparr>voice_id = ''v1'', output_format = pcm, tts_model_name = None, json_config = None\<rparr>
              (TTSStream_new WebSocket_new)))
       [MessageEvent (Inr (TTSAudio ''AQID'')), MessageEvent (Inr (TTSAudio ''BAUG'')),
        MessageEvent (Inr TTSEndOfStream)]
     = Fulfilled \<lparr>raw_data = [1, 2, 3, 4, 5, 6], sample_rate = 48000, request_id = ''req-123''\<rparr> \<and>
   sample_rate \<lparr>raw_data = [1, 2, 3, 4, 5, 6], sample_rate = 48000, request_id = ''req-123''\<rparr> = 48000"
proof -
  let ?p = "\<lparr>voice_id = ''v1'', output_format = pcm, tts_model_name = None, json_config = None\<rparr>"
  let ?s0 = "TTS_onopen ?p (TTSStream_new WebSocket_new)"
  let ?r = "\<lparr>raw_data = [1, 2, 3, 4, 5, 6], sample_rate = 48000, request_id = ''req-123''\<rparr>"
  have h: "TTS_stream ?p True = Inr ?s0" by (simp add: TTS_stream_def)
  have c1: "collect (TTS_run [MessageEvent (Inr (TTSReady ''req-123'')),
              MessageEvent (Inr (TTSAudio ''AQID'')), MessageEvent (Inr (TTSAudio ''BAUG'')),
              MessageEvent (Inr TTSEndOfStream)] ?s0) = Fulfilled ?r"
    by code_simp
  have c2: "collect_during (TTS_run [MessageEvent (Inr (TTSReady ''req-123''))] ?s0)
       [MessageEvent (Inr (TTSAudio ''AQID'')), MessageEvent (Inr (TTSAudio ''BAUG'')),
        MessageEvent (Inr TTSEndOfStream)] = Fulfilled ?r"
    by code_simp
  have concl: "sample_rate ?r = 48000"
    by (rule C9_collect_sample_rate_48000 [OF h, THEN conjunct1, THEN mp, OF c1])
  show ?thesis by (intro conjI h c1 c2 concl)
qed


subsection \<open>Settled waiters stay settled\<close>

lemma TTS_handle_endPromise_settled:
  "endPromise s \<noteq> Pending \<Longrightarrow> endPromise (TTS_handle ev s) = endPromise s"
proof (cases ev)
  case (MessageEvent d)
  assume a: "endPromise s \<noteq> Pending"
  show ?thesis
  proof (cases d)
    case (Inl e)
    with MessageEvent a show ?thesis
      by (cases "endPromise s") (simp_all add: TTS_onmessage_def endReject_def reject_simps)
  next
    case (Inr message)
    with MessageEvent a show ?thesis
      by (cases message; cases "endPromise s")
         (simp_all add: TTS_onmessage_def Let_def readyResolve_def readyReject_def
            endResolve_def endReject_def reject_simps resolve_simps split: sum.split)
  qed
next
  case ErrorEvent
  assume "endPromise s \<noteq> Pending"
  with ErrorEvent show ?thesis
    by (cases "endPromise s") (simp_all add: onerror_def Let_def readyReject_def endReject_def reject_simps)
next
  case (CloseEvent clean c rsn)
  assume "endPromise s \<noteq> Pending"
  with CloseEvent show ?thesis
    by (cases "endPromise s") (simp_all add: onclose_def Let_def readyReject_def endReject_def reject_simps)
qed

lemma TTS_handle_readyPromise_settled:
  "readyPromise s \<noteq> Pending \<Longrightarrow> readyPromise (TTS_handle ev s) = readyPromise s"
proof (cases ev)
  case (MessageEvent d)
  assume a: "readyPromise s \<noteq> Pending"
  show ?thesis
  proof (cases d)
    case (Inl e)
    with MessageEvent a show ?thesis
      by (simp add: TTS_onmessage_def endReject_def)
  next
    case (Inr message)
    with MessageEvent a show ?thesis
      by (cases message; cases "readyPromise s")
         (simp_all add: TTS_onmessage_def Let_def readyResolve_def readyReject_def
            endResolve_def endReject_def reject_simps resolve_simps split: sum.split)
  qed
next
  case ErrorEvent
  assume "readyPromise s \<noteq> Pending"
  with ErrorEvent show ?thesis
    by (cases "readyPromise s") (simp_all add: onerror_def Let_def readyReject_def endReject_def reject_simps)
next
  case (CloseEvent clean c rsn)
  assume "readyPromise s \<noteq> Pending"
  with CloseEvent show ?thesis
    by (cases "readyPromise s") (simp_all add: onclose_def Let_def readyReject_def endReject_def reject_simps)
qed

lemma TTS_run_Nil: "TTS_run [] s = s"
  by (simp add: TTS_run_def)

lemma TTS_run_Cons: "TTS_run (ev # evs) s = TTS_run evs (TTS_handle ev s)"
  by (simp add: TTS_run_def)

lemma TTS_run_append: "TTS_run (xs @ ys) s = TTS_run ys (TTS_run xs s)"
  by (simp add: TTS_run_def)

lemma TTS_run_endPromise_settled:
  "endPromise s \<noteq> Pending \<Longrightarrow> endPromise (TTS_run evs s) = endPromise s"
  by (induction evs arbitrary: s) (simp_all add: TTS_run_Nil TTS_run_Cons TTS_handle_endPromise_settled)

lemma TTS_run_readyPromise_settled:
  "readyPromise s \<noteq> Pending \<Longrightarrow> readyPromise (TTS_run evs s) = readyPromise s"
  by (induction evs arbitrary: s) (simp_all add: TTS_run_Nil TTS_run_Cons TTS_handle_readyPromise_settled)

lemma collect_during_append:
  "endPromise (TTS_run mid s) = Pending \<Longrightarrow>
   collect_during s (mid @ rest) = collect_during (TTS_run mid s) rest"
proof (induction mid arbitrary: s)
  case Nil
  then show ?case by (simp add: TTS_run_Nil)
next
  case (Cons ev mid)
  from Cons.prems have p: "endPromise (TTS_run mid (TTS_handle ev s)) = Pending"
    by (simp add: TTS_run_Cons)
  have "endPromise s = Pending"
  proof (rule ccontr)
    assume "endPromise s \<noteq> Pending"
    then have "endPromise (TTS_run (ev # mid) s) = endPromise s"
      by (rule TTS_run_endPromise_settled)
    with Cons.prems \<open>endPromise s \<noteq> Pending\<close> show False by simp
  qed
  then show ?case using Cons.IH [OF p] by (simp add: TTS_run_Cons)
qed

lemma collect_during_settled:
  "endPromise s \<noteq> Pending \<Longrightarrow> collect_during s evs = collect s"
  by (cases evs) simp_all

lemma collect_Rejected: "endPromise s = Rejected e \<Longrightarrow> collect s = Rejected e"
  by (simp add: collect_def)

lemma TTS_error_endPromise:
  "endPromise (TTS_onmessage (Inr (TTSError m c)) s)
     = reject (WebSocketError m (Some c)) (endPromise s)"
  by (simp add: TTS_onmessage_def Let_def readyReject_def endReject_def)

lemma TTS_error_readyPromise:
  "readyPromise (TTS_onmessage (Inr (TTSError m c)) s)
     = reject (WebSocketError m (Some c)) (readyPromise s)"
  by (simp add: TTS_onmessage_def Let_def readyReject_def endReject_def)

lemma TTS_error_rejects:
  fixes s :: TTSStream
  shows
  "(endPromise (TTS_run mid s) = Pending \<longrightarrow>
      collect (TTS_run (mid @ MessageEvent (Inr (TTSError m c)) # post) s)
        = Rejected (WebSocketError m (Some c)) \<and>
      collect_during s (mid @ MessageEvent (Inr (TTSError m c)) # post)
        = Rejected (WebSocketError m (Some c))) \<and>
   (readyPromise (TTS_run mid s) = Pending \<longrightarrow>
      waitReady (TTS_run (mid @ MessageEvent (Inr (TTSError m c)) # post) s)
        = Rejected (WebSocketError m (Some c)) \<and>
      TTS_waitReady_during s (mid @ MessageEvent (Inr (TTSError m c)) # post)
        = Rejected (WebSocketError m (Some c))) \<and>
   (readyPromise (TTS_run mid s) = Fulfilled v \<longrightarrow>
      waitReady (TTS_run (mid @ MessageEvent (Inr (TTSError m c)) # post) s) = Fulfilled v)"
proof -
  let ?err = "MessageEvent (Inr (TTSError m c)) :: TTSServerMessage ws_event"
  let ?E = "WebSocketError m (Some c)"
  let ?s1 = "TTS_run mid s"
  let ?s2 = "TTS_handle ?err ?s1"
  have run: "TTS_run (mid @ ?err # post) s = TTS_run post ?s2"
    by (simp add: TTS_run_append TTS_run_Cons)
  have A: "collect (TTS_run (mid @ ?err # post) s) = Rejected ?E \<and>
           collect_during s (mid @ ?err # post) = Rejected ?E"
    if p: "endPromise ?s1 = Pending"
  proof -
    have e2: "endPromise ?s2 = Rejected ?E"
      using p by (simp add: TTS_error_endPromise reject_simps)
    then have "endPromise (TTS_run post ?s2) = Rejected ?E"
      by (simp add: TTS_run_endPromise_settled)
    then have c1: "collect (TTS_run (mid @ ?err # post) s) = Rejected ?E"
      unfolding run by (rule collect_Rejected)
    have "collect_during s (mid @ ?err # post) = collect_during ?s1 (?err # post)"
      using p by (rule collect_during_append)
    also have "\<dots> = collect_during ?s2 post" using p by simp
    also have "\<dots> = collect ?s2" using e2 by (simp add: collect_during_settled)
    also have "\<dots> = Rejected ?E" using e2 by (rule collect_Rejected)
    finally show ?thesis using c1 by simp
  qed
  have B: "waitReady (TTS_run (mid @ ?err # post) s) = Rejected ?E"
    if p: "readyPromise ?s1 = Pending"
  proof -
    have "readyPromise ?s2 = Rejected ?E"
      using p by (simp add: TTS_error_readyPromise reject_simps)
    then show ?thesis unfolding run waitReady_def by (simp add: TTS_run_readyPromise_settled)
  qed
  have C: "waitReady (TTS_run (mid @ ?err # post) s) = Fulfilled v"
    if p: "readyPromise ?s1 = Fulfilled v"
  proof -
    have "readyPromise ?s2 = Fulfilled v"
      using p by (simp add: TTS_error_readyPromise reject_simps)
    then show ?thesis unfolding run waitReady_def by (simp add: TTS_run_readyPromise_settled)
  qed
  from A B C show ?thesis by (simp add: TTS_waitReady_during_def)
qed


subsection \<open>Settled waiters stay settled: speech to text\<close>

lemma STT_handle_endPromise_settled:
  "endPromise s \<noteq> Pending \<Longrightarrow> endPromise (STT_handle ev s) = endPromise s"
proof (cases ev)
  case (MessageEvent d)
  assume a: "endPromise s \<noteq> Pending"
  show ?thesis
  proof (cases d)
    case (Inl e)
    with MessageEvent a show ?thesis
      by (cases "endPromise s") (simp_all add: STT_onmessage_def endReject_def reject_simps)
  next
    case (Inr message)
    with MessageEvent a show ?thesis
      by (cases message; cases "endPromise s")
         (simp_all add: STT_onmessage_def Let_def readyResolve_def readyReject_def
            endResolve_def endReject_def reject_simps resolve_simps)
  qed
next
  case ErrorEvent
  assume "endPromise s \<noteq> Pending"
  with ErrorEvent show ?thesis
    by (cases "endPromise s") (simp_all add: onerror_def Let_def readyReject_def endReject_def reject_simps)
next
  case (CloseEvent clean c rsn)
  assume "endPromise s \<noteq> Pending"
  with CloseEvent show ?thesis
    by (cases "endPromise s") (simp_all add: onclose_def Let_def readyReject_def endReject_def reject_simps)
qed

lemma STT_handle_readyPromise_settled:
  "readyPromise s \<noteq> Pending \<Longrightarrow> readyPromise (STT_handle ev s) = readyPromise s"
proof (cases ev)
  case (MessageEvent d)
  assume a: "readyPromise s \<noteq> Pending"
  show ?thesis
  proof (cases d)
    case (Inl e)
    with MessageEvent a show ?thesis
      by (simp add: STT_onmessage_def endReject_def)
  next
    case (Inr message)
    with MessageEvent a show ?thesis
      by (cases message; cases "readyPromise s")
         (simp_all add: STT_onmessage_def Let_def readyResolve_def readyReject_def
            endResolve_def endReject_def reject_simps resolve_simps)
  qed
next
  case ErrorEvent
  assume "readyPromise s \<noteq> Pending"
  with ErrorEvent show ?thesis
    by (cases "readyPromise s") (simp_all add: onerror_def Let_def readyReject_def endReject_def reject_simps)
next
  case (CloseEvent clean c rsn)
  assume "readyPromise s \<noteq> Pending"
  with CloseEvent show ?thesis
    by (cases "readyPromise s") (simp_all add: onclose_def Let_def readyReject_def endReject_def reject_simps)
qed

lemma STT_run_Nil: "STT_run [] s = s"
  by (simp add: STT_run_def)

lemma STT_run_Cons: "STT_run (ev # evs) s = STT_run evs (STT_handle ev s)"
  by (simp add: STT_run_def)

lemma STT_run_append: "STT_run (xs @ ys) s = STT_run ys (STT_run xs s)"
  by (simp add: STT_run_def)

lemma STT_run_endPromise_settled:
  "endPromise s \<noteq> Pending \<Longrightarrow> endPromise (STT_run evs s) = endPromise s"
  by (induction evs arbitrary: s) (simp_all add: STT_run_Nil STT_run_Cons STT_handle_endPromise_settled)

lemma STT_run_readyPromise_settled:
  "readyPromise s \<noteq> Pending \<Longrightarrow> readyPromise (STT_run evs s) = readyPromise s"
  by (induction evs arbitrary: s) (simp_all add: STT_run_Nil STT_run_Cons STT_handle_readyPromise_settled)

lemma collectText_during_append:
  "endPromise (STT_run mid s) = Pending \<Longrightarrow>
   collectText_during s (mid @ rest) = collectText_during (STT_run mid s) rest"
proof (induction mid arbitrary: s)
  case Nil
  then show ?case by (simp add: STT_run_Nil)
next
  case (Cons ev mid)
  from Cons.prems have p: "endPromise (STT_run mid (STT_handle ev s)) = Pending"
    by (simp add: STT_run_Cons)
  have "endPromise s = Pending"
  proof (rule ccontr)
    assume "endPromise s \<noteq> Pending"
    then have "endPromise (STT_run (ev # mid) s) = endPromise s"
      by (rule STT_run_endPromise_settled)
    with Cons.prems \<open>endPromise s \<noteq> Pending\<close> show False by simp
  qed
  then show ?case using Cons.IH [OF p] by (simp add: STT_run_Cons)
qed

lemma collectText_during_settled:
  "endPromise s \<noteq> Pending \<Longrightarrow> collectText_during s evs = collectText s"
  by (cases evs) simp_all

lemma collectText_Rejected: "endPromise s = Rejected e \<Longrightarrow> collectText s = Rejected e"
  by (simp add: collectText_def)

lemma STT_error_endPromise:
  "endPromise (STT_onmessage (Inr (STTError m c)) s)
     = reject (WebSocketError m (Some c)) (endPromise s)"
  by (simp add: STT_onmessage_def Let_def readyReject_def endReject_def)

lemma STT_error_readyPromise:
  "readyPromise (STT_onmessage (Inr (STTError m c)) s)
     = reject (WebSocketError m (Some c)) (readyPromise s)"
  by (simp add: STT_onmessage_def Let_def readyReject_def endReject_def)

lemma STT_error_rejects:
  fixes s :: STTStream
  shows
  "(endPromise (STT_run mid s) = Pending \<longrightarrow>
      collectText (STT_run (mid @ MessageEvent (Inr (STTError m c)) # post) s)
        = Rejected (WebSocketError m (Some c)) \<and>
      collectText_during s (mid @ MessageEvent (Inr (STTError m c)) # post)
        = Rejected (WebSocketError m (Some c))) \<and>
   (readyPromise (STT_run mid s) = Pending \<longrightarrow>
      waitReady (STT_run (mid @ MessageEvent (Inr (STTError m c)) # post) s)
        = Rejected (WebSocketError m (Some c)) \<and>
      STT_waitReady_during s (mid @ MessageEvent (Inr (STTError m c)) # post)
        = Rejected (WebSocketError m (Some c))) \<and>
   (readyPromise (STT_run mid s) = Fulfilled v \<longrightarrow>
      waitReady (STT_run (mid @ MessageEvent (Inr (STTError m c)) # post) s) = Fulfilled v)"
proof -
  let ?err = "MessageEvent (Inr (STTError m c)) :: STTServerMessage ws_event"
  let ?E = "WebSocketError m (Some c)"
  let ?s1 = "STT_run mid s"
  let ?s2 = "STT_handle ?err ?s1"
  have run: "STT_run (mid @ ?err # post) s = STT_run post ?s2"
    by (simp add: STT_run_append STT_run_Cons)
  have A: "collectText (STT_run (mid @ ?err # post) s) = Rejected ?E \<and>
           collectText_during s (mid @ ?err # post) = Rejected ?E"
    if p: "endPromise ?s1 = Pending"
  proof -
    have e2: "endPromise ?s2 = Rejected ?E"
      using p by (simp add: STT_error_endPromise reject_simps)
    then have "endPromise (STT_run post ?s2) = Rejected ?E"
      by (simp add: STT_run_endPromise_settled)
    then have c1: "collectText (STT_run (mid @ ?err # post) s) = Rejected ?E"
      unfolding run by (rule collectText_Rejected)
    have "collectText_during s (mid @ ?err # post) = collectText_during ?s1 (?err # post)"
      using p by (rule collectText_during_append)
    also have "\<dots> = collectText_during ?s2 post" using p by simp
    also have "\<dots> = collectText ?s2" using e2 by (simp add: collectText_during_settled)
    also have "\<dots> = Rejected ?E" using e2 by (rule collectText_Rejected)
    finally show ?thesis using c1 by simp
  qed
  have B: "waitReady (STT_run (mid @ ?err # post) s) = Rejected ?E"
    if p: "readyPromise ?s1 = Pending"
  proof -
    have "readyPromise ?s2 = Rejected ?E"
      using p by (simp add: STT_error_readyPromise reject_simps)
    then show ?thesis unfolding run waitReady_def by (simp add: STT_run_readyPromise_settled)
  qed
  have C: "waitReady (STT_run (mid @ ?err # post) s) = Fulfilled v"
    if p: "readyPromise ?s1 = Fulfilled v"
  proof -
    have "readyPromise ?s2 = Fulfilled v"
      using p by (simp add: STT_error_readyPromise reject_simps)
    then show ?thesis unfolding run waitReady_def by (simp add: STT_run_readyPromise_settled)
  qed
  from A B C show ?thesis by (simp add: STT_waitReady_during_def)
qed


subsection \<open>Error envelopes\<close>

text \<open>
  C1 (amended). For a session of either direction, let an error envelope with message \<open>m\<close>
  and code \<open>c\<close> be handled after the events \<open>mid\<close>. If the end waiter is still pending
  at that point, every \<^verbatim>\<open>collect\<close> / \<^verbatim>\<open>collectText\<close> call, made before the events
  (outstanding) or after all of them (future), is rejected with the \<^verbatim>\<open>WebSocketError\<close>
  of exactly \<open>m\<close> and \<open>c\<close>. If the ready waiter is still pending at that point (error
  before ready), every \<^verbatim>\<open>waitReady\<close> call is rejected with that same error. If the
  ready waiter has been fulfilled before (ready, then error), \<^verbatim>\<open>waitReady\<close> keeps its
  fulfilled value.
\<close>

theorem C1_error_envelope_rejects_pending_waiters:
  fixes s :: TTSStream and t :: STTStream
  shows
  "((endPromise (TTS_run mid s) = Pending \<longrightarrow>
      collect (TTS_run (mid @ MessageEvent (Inr (TTSError m c)) # post) s)
        = Rejected (WebSocketError m (Some c)) \<and>
      collect_during s (mid @ MessageEvent (Inr (TTSError m c)) # post)
        = Rejected (WebSocketError m (Some c))) \<and>
    (readyPromise (TTS_run mid s) = Pending \<longrightarrow>
      waitReady (TTS_run (mid @ MessageEvent (Inr (TTSError m c)) # post) s)
        = Rejected (WebSocketError m (Some c)) \<and>
      TTS_waitReady_during s (mid @ MessageEvent (Inr (TTSError m c)) # post)
        = Rejected (WebSocketError m (Some c))) \<and>
    (readyPromise (TTS_run mid s) = Fulfilled v \<longrightarrow>
      waitReady (TTS_run (mid @ MessageEvent (Inr (TTSError m c)) # post) s) = Fulfilled v)) \<and>
   ((endPromise (STT_run mid' t) = Pending \<longrightarrow>
      collectText (STT_run (mid' @ MessageEvent (Inr (STTError m c)) # post') t)
        = Rejected (WebSocketError m (Some c)) \<and>
      collectText_during t (mid' @ MessageEvent (Inr (STTError m c)) # post')
        = Rejected (WebSocketError m (Some c))) \<and>
    (readyPromise (STT_run mid' t) = Pending \<longrightarrow>
      waitReady (STT_run (mid' @ MessageEvent (Inr (STTError m c)) # post') t)
        = Rejected (WebSocketError m (Some c)) \<and>
      STT_waitReady_during t (mid' @ MessageEvent (Inr (STTError m c)) # post')
        = Rejected (WebSocketError m (Some c))) \<and>
    (readyPromise (STT_run mid' t) = Fulfilled r \<longrightarrow>
      waitReady (STT_run (mid' @ MessageEvent (Inr (STTError m c)) # post') t) = Fulfilled r))"
  by (rule conjI [OF TTS_error_rejects STT_error_rejects])

text \<open>Error before ready on a text-to-speech session; ready, then error on a
  speech-to-text session.\<close>

theorem C1_error_envelope_rejects_pending_waiters_witness:
  "(collect (TTS_run [MessageEvent (Inr (TTSError ''Voice not found'' 404)),
                      MessageEvent (Inr (TTSReady ''req-123''))] (TTSStream_new WebSocket_new))
      = Rejected (WebSocketError ''Voice not found'' (Some 404)) \<and>
    collect_during (TTSStream_new WebSocket_new)
        [MessageEvent (Inr (TTSError ''Voice not found'' 404)),
         MessageEvent (Inr (TTSReady ''req-123''))]
      = Rejected (WebSocketError ''Voice not found'' (Some 404)) \<and>
    waitReady (TTS_run [MessageEvent (Inr (TTSError ''Voice not found'' 404)),
                        MessageEvent (Inr (TTSReady ''req-123''))] (TTSStream_new WebSocket_new))
      = Rejected (WebSocketError ''Voice not found'' (Some 404))) \<and>
   (collectText (STT_run [MessageEvent (Inr (STTReady
        \<lparr>ready_request_id = ''req-123'', ready_model_name = ''default'',
           ready_sample_rate = 24000, ready_frame_size = 1920, delay_in_tokens = 3,
           text_stream_names = [''primary'']\<rparr>)),
        MessageEvent (Inr (STTError ''Invalid audio format'' 400))] (STTStream_new WebSocket_new))
      = Rejected (WebSocketError ''Invalid audio format'' (Some 400)) \<and>
    waitReady (STT_run [MessageEvent (Inr (STTReady
        \<lparr>ready_request_id = ''req-123'', ready_model_name = ''default'',
           ready_sample_rate = 24000, ready_frame_size = 1920, delay_in_tokens = 3,
           text_stream_names = [''primary'']\<rparr>)),
        MessageEvent (Inr (STTError ''Invalid audio format'' 400))] (STTStream_new WebSocket_new))
      = Fulfilled \<lparr>ready_request_id = ''req-123'', ready_model_name = ''default'',
           ready_sample_rate = 24000, ready_frame_size = 1920, delay_in_tokens = 3,
           text_stream_names = [''primary'']\<rparr>)"
proof -
  let ?s = "TTSStream_new WebSocket_new"
  let ?t = "STTStream_new WebSocket_new"
  let ?r = "\<lparr>ready_request_id = ''req-123'', ready_model_name = ''default'',
           ready_sample_rate = 24000, ready_frame_size = 1920, delay_in_tokens = 3,
           text_stream_names = [''primary'']\<rparr>"
  have e: "endPromise (TTS_run [] ?s) = Pending" "readyPromise (TTS_run [] ?s) = Pending"
    by (simp_all add: TTS_run_Nil TTSStream_new_def)
  have e': "endPromise (STT_run [MessageEvent (Inr (STTReady ?r))] ?t) = Pending"
    "readyPromise (STT_run [MessageEvent (Inr (STTReady ?r))] ?t) = Fulfilled ?r"
    by (simp_all add: STT_run_Nil STT_run_Cons STTStream_new_def STT_onmessage_def
         readyResolve_def resolve_simps)
  note th = C1_error_envelope_rejects_pending_waiters
    [of "[]" ?s "''Voice not found''" 404 "[MessageEvent (Inr (TTSReady ''req-123''))]" _
        "[MessageEvent (Inr (STTReady ?r))]" ?t "[]" ?r]
  note th' = C1_error_envelope_rejects_pending_waiters
    [of "[]" ?s "''Invalid audio format''" 400 "[MessageEvent (Inr (TTSReady ''req-123''))]" _
        "[MessageEvent (Inr (STTReady ?r))]" ?t "[]" ?r]
  from th e th' e' show ?thesis by simp
qed

text \<open>Ready, then error: a later \<^verbatim>\<open>waitReady\<close> call is not rejected.\<close>

theorem C1_counterexample:
  "waitReady (TTS_run [MessageEvent (Inr (TTSReady ''req-123'')),
                       MessageEvent (Inr (TTSError ''Voice not found'' 404))]
               (TTSStream_new WebSocket_new)) = Fulfilled () \<and>
   waitReady (TTS_run [MessageEvent (Inr (TTSReady ''req-123'')),
                       MessageEvent (Inr (TTSError ''Voice not found'' 404))]
               (TTSStream_new WebSocket_new)) \<noteq> Rejected (WebSocketError ''Voice not found'' (Some 404))"
  by (simp add: TTS_run_Nil TTS_run_Cons TTSStream_new_def TTS_onmessage_def waitReady_def
        readyResolve_def readyReject_def endReject_def resolve_simps reject_simps)

subsection \<open>Ready envelopes\<close>

lemma TTS_ready_readyPromise:
  "readyPromise (TTS_onmessage (Inr (TTSReady rid)) s) = resolve () (readyPromise s)"
  by (simp add: TTS_onmessage_def Let_def readyResolve_def)

lemma TTS_ready_requestId:
  "requestId (TTS_onmessage (Inr (TTSReady rid)) s) = rid"
  by (simp add: TTS_onmessage_def Let_def readyResolve_def)

lemma STT_ready_readyPromise:
  "readyPromise (STT_onmessage (Inr (STTReady r)) s) = resolve r (readyPromise s)"
  by (simp add: STT_onmessage_def Let_def readyResolve_def)

lemma STT_ready_fields:
  "requestId (STT_onmessage (Inr (STTReady r)) s) = ready_request_id r"
  "sampleRate (STT_onmessage (Inr (STTReady r)) s) = ready_sample_rate r"
  "frameSize (STT_onmessage (Inr (STTReady r)) s) = ready_frame_size r"
  by (simp_all add: STT_onmessage_def Let_def readyResolve_def)

text \<open>
  C2 (amended). For a session of either direction and an event sequence that ends in a
  ready envelope, with the ready waiter still pending before that envelope,
  \<^verbatim>\<open>waitReady\<close> is fulfilled: for speech to text with exactly the ready message of that
  envelope, for text to speech with no value, the request id of the envelope being stored
  in the session. A caller that called before the events, a caller that calls after them,
  and a caller that calls after any further events \<open>post\<close> all see that one resolution.
\<close>

theorem C2_first_ready_resolves_waitReady:
  fixes s :: TTSStream and t :: STTStream
  shows
  "(readyPromise (TTS_run pre s) = Pending \<longrightarrow>
      waitReady (TTS_run (pre @ [MessageEvent (Inr (TTSReady rid))]) s) = Fulfilled () \<and>
      TTS_waitReady_during s (pre @ [MessageEvent (Inr (TTSReady rid))]) = Fulfilled () \<and>
      waitReady (TTS_run (pre @ MessageEvent (Inr (TTSReady rid)) # post) s) = Fulfilled () \<and>
      getRequestId (TTS_run (pre @ [MessageEvent (Inr (TTSReady rid))]) s) = rid) \<and>
   (readyPromise (STT_run pre' t) = Pending \<longrightarrow>
      waitReady (STT_run (pre' @ [MessageEvent (Inr (STTReady r))]) t) = Fulfilled r \<and>
      STT_waitReady_during t (pre' @ [MessageEvent (Inr (STTReady r))]) = Fulfilled r \<and>
      waitReady (STT_run (pre' @ MessageEvent (Inr (STTReady r)) # post') t) = Fulfilled r \<and>
      getRequestId (STT_run (pre' @ [MessageEvent (Inr (STTReady r))]) t) = ready_request_id r \<and>
      sampleRate (STT_run (pre' @ [MessageEvent (Inr (STTReady r))]) t) = ready_sample_rate r \<and>
      frameSize (STT_run (pre' @ [MessageEvent (Inr (STTReady r))]) t) = ready_frame_size r)"
proof -
  have A: "waitReady (TTS_run (pre @ MessageEvent (Inr (TTSReady rid)) # post) s) = Fulfilled ()"
    if p: "readyPromise (TTS_run pre s) = Pending" for post
  proof -
    have "readyPromise (TTS_handle (MessageEvent (Inr (TTSReady rid))) (TTS_run pre s)) = Fulfilled ()"
      using p by (simp add: TTS_ready_readyPromise resolve_simps)
    then show ?thesis
      by (simp add: waitReady_def TTS_run_append TTS_run_Cons TTS_run_readyPromise_settled)
  qed
  have B: "waitReady (STT_run (pre' @ MessageEvent (Inr (STTReady r)) # post') t) = Fulfilled r"
    if p: "readyPromise (STT_run pre' t) = Pending" for post'
  proof -
    have "readyPromise (STT_handle (MessageEvent (Inr (STTReady r))) (STT_run pre' t)) = Fulfilled r"
      using p by (simp add: STT_ready_readyPromise resolve_simps)
    then show ?thesis
      by (simp add: waitReady_def STT_run_append STT_run_Cons STT_run_readyPromise_settled)
  qed
  have C: "getRequestId (TTS_run (pre @ [MessageEvent (Inr (TTSReady rid))]) s) = rid"
    by (simp add: getRequestId_def TTS_run_append TTS_run_Cons TTS_run_Nil TTS_ready_requestId)
  have D: "getRequestId (STT_run (pre' @ [MessageEvent (Inr (STTReady r))]) t) = ready_request_id r"
    "sampleRate (STT_run (pre' @ [MessageEvent (Inr (STTReady r))]) t) = ready_sample_rate r"
    "frameSize (STT_run (pre' @ [MessageEvent (Inr (STTReady r))]) t) = ready_frame_size r"
    by (simp_all add: getRequestId_def STT_run_append STT_run_Cons STT_run_Nil STT_ready_fields)
  from A [of "[]"] A [of post] B [of "[]"] B [of post'] C D show ?thesis
    by (simp add: TTS_waitReady_during_def STT_waitReady_during_def)
qed

theorem C2_first_ready_resolves_waitReady_witness:
  "(waitReady (TTS_run [MessageEvent (Inr (TTSReady ''req-123''))] (TTSStream_new WebSocket_new))
      = Fulfilled () \<and>
    getRequestId (TTS_run [MessageEvent (Inr (TTSReady ''req-123''))] (TTSStream_new WebSocket_new))
      = ''req-123'') \<and>
   (waitReady (STT_run [MessageEvent (Inr (STTReady
        \<lparr>ready_request_id = ''req-123'', ready_model_name = ''default'',
           ready_sample_rate = 24000, ready_frame_size = 1920, delay_in_tokens = 3,
           text_stream_names = [''primary'']\<rparr>))] (STTStream_new WebSocket_new))
      = Fulfilled \<lparr>ready_request_id = ''req-123'', ready_model_name = ''default'',
           ready_sample_rate = 24000, ready_frame_size = 1920, delay_in_tokens = 3,
           text_stream_names = [''primary'']\<rparr> \<and>
    sampleRate (STT_run [MessageEvent (Inr (STTReady
        \<lparr>ready_request_id = ''req-123'', ready_model_name = ''default'',
           ready_sample_rate = 24000, ready_frame_size = 1920, delay_in_tokens = 3,
           text_stream_names = [''primary'']\<rparr>))] (STTStream_new WebSocket_new)) = 24000)"
proof -
  have e: "readyPromise (TTS_run [] (TTSStream_new WebSocket_new)) = Pending"
    "readyPromise (STT_run [] (STTStream_new WebSocket_new)) = Pending"
    by (simp_all add: TTS_run_Nil STT_run_Nil TTSStream_new_def STTStream_new_def)
  from C2_first_ready_resolves_waitReady
    [of "[]" "TTSStream_new WebSocket_new" "''req-123''" "[]" "[]" "STTStream_new WebSocket_new"
        "\<lparr>ready_request_id = ''req-123'', ready_model_name = ''default'',
           ready_sample_rate = 24000, ready_frame_size = 1920, delay_in_tokens = 3,
           text_stream_names = [''primary'']\<rparr>" "[]"] e
  show ?thesis by simp
qed

text \<open>A sequence that ends in a ready envelope after an error envelope: \<^verbatim>\<open>waitReady\<close>
  is rejected.\<close>

theorem C2_counterexample:
  "waitReady (STT_run [MessageEvent (Inr (STTError ''Invalid audio format'' 400)),
        MessageEvent (Inr (STTReady
          \<lparr>ready_request_id = ''req-123'', ready_model_name = ''default'',
             ready_sample_rate = 24000, ready_frame_size = 1920, delay_in_tokens = 3,
             text_stream_names = [''primary'']\<rparr>))] (STTStream_new WebSocket_new))
     = Rejected (WebSocketError ''Invalid audio format'' (Some 400))"
  by (simp add: STT_run_Nil STT_run_Cons STTStream_new_def STT_onmessage_def waitReady_def
        Let_def readyResolve_def readyReject_def endReject_def resolve_simps reject_simps)

subsection \<open>Decode failures\<close>

text \<open>
  C5 (the code at the failing input). A first inbound message that \<^verbatim>\<open>JSON.parse\<close> rejects
  leaves the ready waiter pending in both directions: the \<^verbatim>\<open>catch\<close> block rejects the
  end waiter only, and a later ready envelope still fulfils \<^verbatim>\<open>waitReady\<close>.
\<close>

theorem C5_decode_failure_leaves_ready_waiter_pending:
  "waitReady (TTS_run [MessageEvent (Inl SyntaxError)] (TTSStream_new WebSocket_new)) = Pending \<and>
   endPromise (TTS_run [MessageEvent (Inl SyntaxError)] (TTSStream_new WebSocket_new))
     = Rejected SyntaxError \<and>
   waitReady (TTS_run [MessageEvent (Inl SyntaxError), MessageEvent (Inr (TTSReady ''req-123''))]
      (TTSStream_new WebSocket_new)) = Fulfilled () \<and>
   waitReady (STT_run [MessageEvent (Inl SyntaxError)] (STTStream_new WebSocket_new)) = Pending \<and>
   endPromise (STT_run [MessageEvent (Inl SyntaxError)] (STTStream_new WebSocket_new))
     = Rejected SyntaxError"
  by (simp add: TTS_run_Nil TTS_run_Cons STT_run_Nil STT_run_Cons TTSStream_new_def
        STTStream_new_def TTS_onmessage_def STT_onmessage_def waitReady_def
        readyResolve_def endReject_def resolve_simps reject_simps)

subsection \<open>Sending input\<close>



lemma STT_handle_isReady:
  "isReady (STT_handle ev s) = (isReady s \<or> (\<exists>r. ev = MessageEvent (Inr (STTReady r))))"
proof (cases ev)
  case (MessageEvent d)
  show ?thesis
  proof (cases d)
    case (Inl e)
    with MessageEvent show ?thesis by (simp add: STT_onmessage_def endReject_def)
  next
    case (Inr message)
    with MessageEvent show ?thesis
      by (cases message)
         (simp_all add: STT_onmessage_def Let_def readyResolve_def readyReject_def
            endResolve_def endReject_def)
  qed
next
  case ErrorEvent
  then show ?thesis by (simp add: onerror_def Let_def readyReject_def endReject_def)
next
  case (CloseEvent clean c rsn)
  then show ?thesis by (simp add: onclose_def Let_def readyReject_def endReject_def)
qed





subsection \<open>Collecting\<close>

lemma totalLength_fold: "fold (\<lambda>chunk sum. sum + length chunk) chunks n = n + length (concat chunks)"
  by (induction chunks arbitrary: n) simp_all

lemma totalLength_concat: "totalLength chunks = length (concat chunks)"
  by (simp add: totalLength_def totalLength_fold)

lemma copy_chunks_concat:
  "offset + length (concat chunks) \<le> length rawData \<Longrightarrow>
   copy_chunks chunks offset rawData =
     Some (take offset rawData @ concat chunks @ drop (offset + length (concat chunks)) rawData)"
proof (induction chunks arbitrary: offset rawData)
  case Nil
  then show ?case by simp
next
  case (Cons chunk cs)
  let ?r = "take offset rawData @ chunk @ drop (offset + length chunk) rawData"
  from Cons.prems have fit: "offset + length chunk \<le> length rawData" by simp
  then have set: "set_at chunk offset rawData = Some ?r" by (simp add: set_at_def)
  have len: "length ?r = length rawData" using fit by simp
  from Cons.prems have "offset + length chunk + length (concat cs) \<le> length ?r"
    unfolding len by simp
  from Cons.IH [OF this]
  have "copy_chunks cs (offset + length chunk) ?r =
          Some (take (offset + length chunk) ?r @ concat cs @
                drop (offset + length chunk + length (concat cs)) ?r)" .
  moreover have "take (offset + length chunk) ?r = take offset rawData @ chunk"
    using fit by simp
  moreover have "drop (offset + length chunk + length (concat cs)) ?r =
      drop (offset + length (concat (chunk # cs))) rawData"
    using fit by (simp add: add.commute add.left_commute)
  ultimately show ?case using set by simp
qed

lemma collect_rawData_concat: "collect_rawData chunks = Some (concat chunks)"
  using copy_chunks_concat [of 0 chunks "replicate (totalLength chunks) 0"]
  by (simp add: collect_rawData_def totalLength_concat)

lemma TTS_audio_event:
  "TTS_onmessage (Inr (TTSAudio (btoa (fromCharCode a)))) s =
     s\<lparr>messageQueue := messageQueue s @ [TTSAudio (btoa (fromCharCode a))],
        audioChunks := audioChunks s @ [a]\<rparr>"
  by (simp add: TTS_onmessage_def Let_def atob_btoa Uint8Array_from_fromCharCode)

lemma TTS_run_audio:
  "audioChunks (TTS_run (map (\<lambda>a. MessageEvent (Inr (TTSAudio (btoa (fromCharCode a))))) chunks) s)
     = audioChunks s @ chunks \<and>
   endPromise (TTS_run (map (\<lambda>a. MessageEvent (Inr (TTSAudio (btoa (fromCharCode a))))) chunks) s)
     = endPromise s \<and>
   sampleRate (TTS_run (map (\<lambda>a. MessageEvent (Inr (TTSAudio (btoa (fromCharCode a))))) chunks) s)
     = sampleRate s \<and>
   requestId (TTS_run (map (\<lambda>a. MessageEvent (Inr (TTSAudio (btoa (fromCharCode a))))) chunks) s)
     = requestId s"
  by (induction chunks arbitrary: s) (simp_all add: TTS_run_Nil TTS_run_Cons TTS_audio_event)

lemma TTS_end_of_stream_event:
  "TTS_onmessage (Inr TTSEndOfStream) s =
     s\<lparr>messageQueue := messageQueue s @ [TTSEndOfStream],
        endPromise := resolve () (endPromise s)\<rparr>"
  by (simp add: TTS_onmessage_def Let_def endResolve_def)

lemma STT_text_event:
  "STT_onmessage (Inr (STTText x)) s =
     s\<lparr>messageQueue := messageQueue s @ [STTText x], textResults := textResults s @ [x]\<rparr>"
  by (simp add: STT_onmessage_def Let_def)

lemma STT_run_text:
  "textResults (STT_run (map (\<lambda>x. MessageEvent (Inr (STTText x))) texts) s) = textResults s @ texts \<and>
   endPromise (STT_run (map (\<lambda>x. MessageEvent (Inr (STTText x))) texts) s) = endPromise s"
  by (induction texts arbitrary: s) (simp_all add: STT_run_Nil STT_run_Cons STT_text_event)

lemma STT_end_of_stream_event:
  "STT_onmessage (Inr STTEndOfStream) s =
     s\<lparr>messageQueue := messageQueue s @ [STTEndOfStream],
        endPromise := resolve () (endPromise s)\<rparr>"
  by (simp add: STT_onmessage_def Let_def endResolve_def)

text \<open>
  C3. On a text-to-speech session whose end waiter is pending, after audio envelopes that
  carry the base64 text of the byte arrays \<open>chunks\<close> (for instance three chunks A, B, C),
  in that order, and then an end-of-stream envelope, \<^verbatim>\<open>collect\<close> returns the bytes collected
  before followed by the byte-exact concatenation of \<open>chunks\<close> (on a session without earlier
  audio: exactly A, B, C concatenated). On a speech-to-text session, after text envelopes
  and then an end-of-stream envelope, \<^verbatim>\<open>collectText\<close> returns their texts in arrival order,
  joined by one space. A call made before the envelopes returns the same, and before the
  end-of-stream envelope is handled both calls are still suspended.
\<close>

theorem C3_collect_concatenates_in_arrival_order:
  fixes s :: TTSStream and t :: STTStream
  assumes "endPromise s = Pending" and "endPromise t = Pending"
  shows
  "collect (TTS_run (map (\<lambda>a. MessageEvent (Inr (TTSAudio (btoa (fromCharCode a))))) chunks
                      @ [MessageEvent (Inr TTSEndOfStream)]) s)
     = Fulfilled \<lparr>raw_data = concat (audioChunks s @ chunks), sample_rate = sampleRate s,
                  request_id = requestId s\<rparr> \<and>
   collect_during s (map (\<lambda>a. MessageEvent (Inr (TTSAudio (btoa (fromCharCode a))))) chunks
                      @ [MessageEvent (Inr TTSEndOfStream)])
     = Fulfilled \<lparr>raw_data = concat (audioChunks s @ chunks), sample_rate = sampleRate s,
                  request_id = requestId s\<rparr> \<and>
   collect (TTS_run (map (\<lambda>a. MessageEvent (Inr (TTSAudio (btoa (fromCharCode a))))) chunks) s)
     = Pending \<and>
   collectText (STT_run (map (\<lambda>x. MessageEvent (Inr (STTText x))) texts
                          @ [MessageEvent (Inr STTEndOfStream)]) t)
     = Fulfilled (join '' '' (map text_of (textResults t @ texts))) \<and>
   collectText_during t (map (\<lambda>x. MessageEvent (Inr (STTText x))) texts
                          @ [MessageEvent (Inr STTEndOfStream)])
     = Fulfilled (join '' '' (map text_of (textResults t @ texts))) \<and>
   collectText (STT_run (map (\<lambda>x. MessageEvent (Inr (STTText x))) texts) t) = Pending"
proof -
  let ?aud = "map (\<lambda>a. MessageEvent (Inr (TTSAudio (btoa (fromCharCode a))))) chunks"
  let ?txt = "map (\<lambda>x. MessageEvent (Inr (STTText x))) texts"
  let ?s1 = "TTS_run ?aud s"
  let ?t1 = "STT_run ?txt t"
  let ?res = "\<lparr>raw_data = concat (audioChunks s @ chunks), sample_rate = sampleRate s,
                  request_id = requestId s\<rparr>"
  note a = TTS_run_audio [of chunks s]
  note b = STT_run_text [of texts t]
  have p1: "endPromise ?s1 = Pending" using a assms by simp
  have q1: "endPromise ?t1 = Pending" using b assms by simp
  have c2: "collect (TTS_handle (MessageEvent (Inr TTSEndOfStream)) ?s1) = Fulfilled ?res"
    using a p1 by (simp add: collect_def TTS_end_of_stream_event resolve_simps collect_rawData_concat)
  then have c1: "collect (TTS_run (?aud @ [MessageEvent (Inr TTSEndOfStream)]) s) = Fulfilled ?res"
    by (simp add: TTS_run_append TTS_run_Cons TTS_run_Nil)
  have "collect_during s (?aud @ [MessageEvent (Inr TTSEndOfStream)])
          = collect_during ?s1 [MessageEvent (Inr TTSEndOfStream)]"
    using p1 by (rule collect_during_append)
  also have "\<dots> = collect (TTS_handle (MessageEvent (Inr TTSEndOfStream)) ?s1)"
    using p1 by simp
  finally have c3: "collect_during s (?aud @ [MessageEvent (Inr TTSEndOfStream)]) = Fulfilled ?res"
    using c2 by simp
  have c4: "collect ?s1 = Pending" using p1 by (simp add: collect_def)
  have d2: "collectText (STT_handle (MessageEvent (Inr STTEndOfStream)) ?t1)
              = Fulfilled (join '' '' (map text_of (textResults t @ texts)))"
    using b q1 by (simp add: collectText_def STT_end_of_stream_event resolve_simps)
  then have d1: "collectText (STT_run (?txt @ [MessageEvent (Inr STTEndOfStream)]) t)
              = Fulfilled (join '' '' (map text_of (textResults t @ texts)))"
    by (simp add: STT_run_append STT_run_Cons STT_run_Nil)
  have "collectText_during t (?txt @ [MessageEvent (Inr STTEndOfStream)])
          = collectText_during ?t1 [MessageEvent (Inr STTEndOfStream)]"
    using q1 by (rule collectText_during_append)
  also have "\<dots> = collectText (STT_handle (MessageEvent (Inr STTEndOfStream)) ?t1)"
    using q1 by simp
  finally have d3: "collectText_during t (?txt @ [MessageEvent (Inr STTEndOfStream)])
              = Fulfilled (join '' '' (map text_of (textResults t @ texts)))"
    using d2 by simp
  have d4: "collectText ?t1 = Pending" using q1 by (simp add: collectText_def)
  show ?thesis by (intro conjI c1 c3 c4 d1 d3 d4)
qed



theorem C3_collect_concatenates_in_arrival_order_witness:
  "collect (TTS_run [MessageEvent (Inr (TTSAudio ''AQID'')), MessageEvent (Inr (TTSAudio ''BAUG'')),
                     MessageEvent (Inr (TTSAudio ''Bw=='')), MessageEvent (Inr TTSEndOfStream)]
             (TTS_run [MessageEvent (Inr (TTSReady ''req-123''))] (TTSStream_new WebSocket_new)))
     = Fulfilled \<lparr>raw_data = [1, 2, 3, 4, 5, 6, 7], sample_rate = 48000, request_id = ''req-123''\<rparr> \<and>
   collect (TTS_run [MessageEvent (Inr (TTSAudio ''AQID'')), MessageEvent (Inr (TTSAudio ''BAUG'')),
                     MessageEvent (Inr (TTSAudio ''Bw==''))]
             (TTS_run [MessageEvent (Inr (TTSReady ''req-123''))] (TTSStream_new WebSocket_new)))
     = Pending \<and>
   collectText (STT_run [MessageEvent (Inr (STTText \<lparr>text_of = ''Hello'', start_s = 0, stream_id = None\<rparr>)),
                         MessageEvent (Inr (STTText \<lparr>text_of = ''world'', start_s = 0.5, stream_id = None\<rparr>)),
                         MessageEvent (Inr STTEndOfStream)]
                 (STTStream_new WebSocket_new))
     = Fulfilled ''Hello world''"
proof -
  let ?s = "TTS_run [MessageEvent (Inr (TTSReady ''req-123''))] (TTSStream_new WebSocket_new)"
  let ?t = "STTStream_new WebSocket_new"
  let ?chunks = "[[1, 2, 3], [4, 5, 6], [7]] :: Uint8Array list"
  let ?texts = "[\<lparr>text_of = ''Hello'', start_s = 0, stream_id = None\<rparr>,
                 \<lparr>text_of = ''world'', start_s = 0.5, stream_id = None\<rparr>]"
  have s: "endPromise ?s = Pending" "audioChunks ?s = []" "sampleRate ?s = 48000"
    "requestId ?s = ''req-123''"
    by (simp_all add: TTS_run_Nil TTS_run_Cons TTSStream_new_def TTS_onmessage_def readyResolve_def)
  have t: "endPromise ?t = Pending" "textResults ?t = []"
    by (simp_all add: STTStream_new_def)
  have b: "map (\<lambda>a. MessageEvent (Inr (TTSAudio (btoa (fromCharCode a))))) ?chunks
             = [MessageEvent (Inr (TTSAudio ''AQID'')), MessageEvent (Inr (TTSAudio ''BAUG'')),
                MessageEvent (Inr (TTSAudio ''Bw==''))]"
    by code_simp
  from C3_collect_concatenates_in_arrival_order [OF s(1) t(1), of ?chunks ?texts]
  show ?thesis unfolding b s t by simp
qed


subsection \<open>Chunked transcription\<close>

lemma sendAudio_ready:
  "isReady s \<Longrightarrow> sendAudio a s =
     Inr (s\<lparr>ws := ws_send (JSON_stringify (audio_message (btoa (fromCharCode a)))) (ws s)\<rparr>)"
  by (simp add: sendAudio_def Let_def)

lemma transcribe_loop_ready:
  "isReady s \<Longrightarrow>
   transcribe_loop i audio s =
     (None, s\<lparr>ws := (ws s)\<lparr>sentMessages := sentMessages (ws s) @
        map (\<lambda>c. JSON_stringify (audio_message (btoa (fromCharCode c)))) (transcribe_chunks i audio)\<rparr>\<rparr>)"
proof (induction i audio s rule: transcribe_loop.induct)
  case (1 i audio s)
  show ?case
  proof (cases "i < length audio")
    case True
    let ?c = "slice i (min (i + chunkSize) (length audio)) audio"
    let ?s' = "s\<lparr>ws := ws_send (JSON_stringify (audio_message (btoa (fromCharCode ?c)))) (ws s)\<rparr>"
    have sa: "sendAudio ?c s = Inr ?s'" using "1.prems" by (rule sendAudio_ready)
    have r': "isReady ?s'" using "1.prems" by simp
    from "1.IH" [OF True sa r']
    show ?thesis
      using True sa
      by (simp add: transcribe_loop.simps [of i] transcribe_chunks.simps [of i] ws_send_def)
  next
    case False
    then show ?thesis
      by (simp add: transcribe_loop.simps [of i] transcribe_chunks.simps [of i])
  qed
qed

lemma concat_transcribe_chunks: "concat (transcribe_chunks i audio) = drop i audio"
proof (induction i audio rule: transcribe_chunks.induct)
  case (1 i audio)
  show ?case
  proof (cases "i < length audio")
    case True
    have "slice i (min (i + chunkSize) (length audio)) audio @ drop (i + chunkSize) audio = drop i audio"
    proof -
      have a: "slice i (min (i + chunkSize) (length audio)) audio = take chunkSize (drop i audio)"
        by (simp add: slice_def min_def take_drop add.commute)
      have "take chunkSize (drop i audio) @ drop chunkSize (drop i audio) = drop i audio"
        by (rule append_take_drop_id)
      then show ?thesis unfolding a by (simp add: add.commute)
    qed
    with 1 True show ?thesis by (simp add: transcribe_chunks.simps [of i])
  next
    case False
    then show ?thesis by (simp add: transcribe_chunks.simps [of i])
  qed
qed

lemma length_transcribe_chunks:
  "length (transcribe_chunks i audio) = (length audio - i + (chunkSize - 1)) div chunkSize"
proof (induction i audio rule: transcribe_chunks.induct)
  case (1 i audio)
  show ?case
  proof (cases "i < length audio")
    case True
    then have "length audio - i + (chunkSize - 1) = (length audio - (i + chunkSize) + (chunkSize - 1)) + chunkSize
               \<or> (length audio - i \<le> chunkSize \<and> length audio - (i + chunkSize) = 0)"
      by (auto simp add: chunkSize_def)
    then have "(length audio - i + (chunkSize - 1)) div chunkSize
          = Suc ((length audio - (i + chunkSize) + (chunkSize - 1)) div chunkSize)"
      using True by (auto simp add: chunkSize_def)
    with 1 True show ?thesis by (simp add: transcribe_chunks.simps [of i])
  next
    case False
    then show ?thesis by (simp add: transcribe_chunks.simps [of i] chunkSize_def)
  qed
qed

lemma size_transcribe_chunks:
  "c \<in> set (transcribe_chunks i audio) \<Longrightarrow> length c \<le> chunkSize \<and> c \<noteq> []"
proof (induction i audio rule: transcribe_chunks.induct)
  case (1 i audio)
  show ?case
  proof (cases "i < length audio")
    case True
    with "1.prems" have "c = slice i (min (i + chunkSize) (length audio)) audio
        \<or> c \<in> set (transcribe_chunks (i + chunkSize) audio)"
      by (simp add: transcribe_chunks.simps [of i])
    then show ?thesis
    proof
      assume "c = slice i (min (i + chunkSize) (length audio)) audio"
      then show ?thesis using True by (auto simp add: slice_def chunkSize_def)
    next
      assume "c \<in> set (transcribe_chunks (i + chunkSize) audio)"
      with 1 True show ?thesis by simp
    qed
  next
    case False
    with "1.prems" show ?thesis by (simp add: transcribe_chunks.simps [of i])
  qed
qed


lemma ws_STT_handle: "ws (STT_handle ev s) = ws s"
proof (cases ev)
  case (MessageEvent d)
  show ?thesis
  proof (cases d)
    case (Inl e)
    with MessageEvent show ?thesis by (simp add: STT_onmessage_def endReject_def)
  next
    case (Inr message)
    with MessageEvent show ?thesis
      by (cases message)
         (simp_all add: STT_onmessage_def Let_def readyResolve_def readyReject_def
            endResolve_def endReject_def)
  qed
next
  case ErrorEvent
  then show ?thesis by (simp add: onerror_def Let_def readyReject_def endReject_def)
next
  case (CloseEvent clean c rsn)
  then show ?thesis by (simp add: onclose_def Let_def readyReject_def endReject_def)
qed

lemma ws_STT_run: "ws (STT_run evs s) = ws s"
  by (induction evs arbitrary: s) (simp_all add: STT_run_Nil STT_run_Cons ws_STT_handle)

lemma STT_handle_ready_inv:
  assumes "\<And>r. readyPromise s = Fulfilled r \<Longrightarrow> isReady s"
    and "readyPromise (STT_handle ev s) = Fulfilled r"
  shows "isReady (STT_handle ev s)"
proof (cases "\<exists>r'. ev = MessageEvent (Inr (STTReady r'))")
  case True
  then show ?thesis by (simp add: STT_handle_isReady)
next
  case False
  have "readyPromise s = Fulfilled r"
  proof (cases "readyPromise s")
    case Pending
    have "readyPromise (STT_handle ev s) \<noteq> Fulfilled r"
    proof (cases ev)
      case (MessageEvent d)
      show ?thesis
      proof (cases d)
        case (Inl e)
        with MessageEvent Pending show ?thesis by (simp add: STT_onmessage_def endReject_def)
      next
        case (Inr message)
        with MessageEvent Pending False show ?thesis
          by (cases message)
             (simp_all add: STT_onmessage_def Let_def readyResolve_def readyReject_def
                endResolve_def endReject_def reject_simps)
      qed
    next
      case ErrorEvent
      with Pending show ?thesis
        by (simp add: onerror_def Let_def readyReject_def endReject_def reject_simps)
    next
      case (CloseEvent clean c rsn)
      with Pending show ?thesis
        by (simp add: onclose_def Let_def readyReject_def endReject_def reject_simps)
    qed
    with assms(2) show ?thesis by simp
  next
    case (Fulfilled x)
    then have "readyPromise (STT_handle ev s) = readyPromise s"
      by (simp add: STT_handle_readyPromise_settled)
    with assms(2) show ?thesis by simp
  next
    case (Rejected e)
    then have "readyPromise (STT_handle ev s) = readyPromise s"
      by (simp add: STT_handle_readyPromise_settled)
    with assms(2) Rejected show ?thesis by simp
  qed
  then have "isReady s" by (rule assms(1))
  then show ?thesis by (simp add: STT_handle_isReady)
qed

lemma await_ready_inv:
  assumes "\<And>r. readyPromise s = Fulfilled r \<Longrightarrow> isReady s"
    and "readyPromise (fst (await_ready s evs)) = Fulfilled r"
  shows "isReady (fst (await_ready s evs))"
  using assms
proof (induction evs arbitrary: s)
  case Nil
  then show ?case by simp
next
  case (Cons ev evs)
  show ?case
  proof (cases "readyPromise s = Pending")
    case True
    have inv: "\<And>r. readyPromise (STT_handle ev s) = Fulfilled r \<Longrightarrow> isReady (STT_handle ev s)"
      using Cons.prems(1) by (rule STT_handle_ready_inv)
    from Cons.prems(2) True
    have "readyPromise (fst (await_ready (STT_handle ev s) evs)) = Fulfilled r" by simp
    from Cons.IH [OF inv this] True show ?thesis by simp
  next
    case False
    with Cons.prems show ?thesis by simp
  qed
qed

lemma ws_await_ready: "ws (fst (await_ready s evs)) = ws s"
  by (induction evs arbitrary: s) (simp_all add: ws_STT_handle)

text \<open>
  C10. When the channel opens and the awaited ready waiter is fulfilled, \<^verbatim>\<open>STT.transcribe\<close>
  has written, after the setup envelope, one audio envelope per slice of the input \<open>audio\<close>,
  in order, and then exactly one end-of-stream envelope. There are
  \<open>\<lceil>|audio| / 3840\<rceil>\<close> slices, each of at most 3840 bytes; the base64 payload of each
  envelope decodes to its slice, and the slices concatenated are \<open>audio\<close>.
\<close>

theorem C10_transcribe_sends_audio_in_chunks:
  assumes "waitReady (fst (await_ready (STT_onopen params (STTStream_new WebSocket_new)) evs))
             = Fulfilled r"
  shows
  "map_option (\<lambda>s. sentMessages (ws s)) (snd (STT_transcribe params audio True evs)) =
     Some (JSON_stringify (STTSetupMessage params)
           # map (\<lambda>c. JSON_stringify (audio_message (btoa (fromCharCode c))))
               (transcribe_chunks 0 audio)
           @ [JSON_stringify end_of_stream_message]) \<and>
   length (transcribe_chunks 0 audio) = (length audio + 3839) div 3840 \<and>
   (\<forall>c\<in>set (transcribe_chunks 0 audio).
      length c \<le> 3840 \<and> map_sum id Uint8Array_from (atob (btoa (fromCharCode c))) = Inr c) \<and>
   concat (transcribe_chunks 0 audio) = audio"
proof -
  let ?s0 = "STT_onopen params (STTStream_new WebSocket_new)"
  obtain s1 rest where ar: "await_ready ?s0 evs = (s1, rest)" by (cases "await_ready ?s0 evs")
  with assms have rp: "readyPromise s1 = Fulfilled r" by (simp add: waitReady_def)
  have "\<And>r. readyPromise ?s0 = Fulfilled r \<Longrightarrow> isReady ?s0"
    by (simp add: STT_onopen_def STTStream_new_def)
  then have "readyPromise (fst (await_ready ?s0 evs)) = Fulfilled r
               \<Longrightarrow> isReady (fst (await_ready ?s0 evs))"
    by (rule await_ready_inv)
  with ar rp have ready: "isReady s1" by simp
  have ws1: "sentMessages (ws s1) = [JSON_stringify (STTSetupMessage params)]"
    using ws_await_ready [of ?s0 evs] ar
    by (simp add: STT_onopen_def STTStream_new_def WebSocket_new_def ws_send_def)
  let ?s2 = "s1\<lparr>ws := (ws s1)\<lparr>sentMessages := sentMessages (ws s1) @
        map (\<lambda>c. JSON_stringify (audio_message (btoa (fromCharCode c)))) (transcribe_chunks 0 audio)\<rparr>\<rparr>"
  have loop: "transcribe_loop 0 audio s1 = (None, ?s2)"
    using ready by (rule transcribe_loop_ready)
  have tr: "STT_transcribe params audio True evs =
      (collectText_during (sendEndOfStream ?s2) rest, Some (STT_run rest (sendEndOfStream ?s2)))"
    using ar rp loop by (simp add: STT_transcribe_def STT_stream_def Let_def waitReady_def)
  have sent: "map_option (\<lambda>s. sentMessages (ws s)) (snd (STT_transcribe params audio True evs)) =
     Some (JSON_stringify (STTSetupMessage params)
           # map (\<lambda>c. JSON_stringify (audio_message (btoa (fromCharCode c))))
               (transcribe_chunks 0 audio)
           @ [JSON_stringify end_of_stream_message])"
    unfolding tr by (simp add: ws_STT_run sendEndOfStream_def ws_send_def ws1)
  have len: "length (transcribe_chunks 0 audio) = (length audio + 3839) div 3840"
    using length_transcribe_chunks [of 0 audio] by (simp add: chunkSize_def)
  have each: "\<forall>c\<in>set (transcribe_chunks 0 audio).
      length c \<le> 3840 \<and> map_sum id Uint8Array_from (atob (btoa (fromCharCode c))) = Inr c"
    using size_transcribe_chunks [of _ 0 audio]
    by (auto simp add: chunkSize_def atob_btoa Uint8Array_from_fromCharCode)
  have cat: "concat (transcribe_chunks 0 audio) = audio"
    by (simp add: concat_transcribe_chunks)
  show ?thesis by (intro conjI sent len each cat)
qed

theorem C10_transcribe_sends_audio_in_chunks_witness:
  \<open>waitReady (fst (await_ready
       (STT_onopen \<lparr>input_format = stt_pcm, stt_model_name = None\<rparr> (STTStream_new WebSocket_new))
       [MessageEvent (Inr (STTReady
          \<lparr>ready_request_id = ''req-789'', ready_model_name = ''default'',
             ready_sample_rate = 24000, ready_frame_size = 1920, delay_in_tokens = 3,
             text_stream_names = [''primary'']\<rparr>))]))
     = Fulfilled \<lparr>ready_request_id = ''req-789'', ready_model_name = ''default'',
             ready_sample_rate = 24000, ready_frame_size = 1920, delay_in_tokens = 3,
             text_stream_names = [''primary'']\<rparr> \<and>
   map_option (\<lambda>s. sentMessages (ws s))
     (snd (STT_transcribe \<lparr>input_format = stt_pcm, stt_model_name = None\<rparr> [1, 2, 3, 4, 5] True
       [MessageEvent (Inr (STTReady
          \<lparr>ready_request_id = ''req-789'', ready_model_name = ''default'',
             ready_sample_rate = 24000, ready_frame_size = 1920, delay_in_tokens = 3,
             text_stream_names = [''primary'']\<rparr>))]))
     = Some [''{"type":"setup","input_format":"pcm","model_name":"default"}'',
             ''{"type":"audio","audio":"AQIDBAU="}'',
             ''{"type":"end_of_stream"}''] \<and>
   length (transcribe_chunks 0 (replicate 4000 0)) = 2\<close>
proof -
  let ?p = "\<lparr>input_format = stt_pcm, stt_model_name = None\<rparr>"
  let ?r = "\<lparr>ready_request_id = ''req-789'', ready_model_name = ''default'',
             ready_sample_rate = 24000, ready_frame_size = 1920, delay_in_tokens = 3,
             text_stream_names = [''primary'']\<rparr>"
  let ?evs = "[MessageEvent (Inr (STTReady ?r))]"
  have h: "waitReady (fst (await_ready (STT_onopen ?p (STTStream_new WebSocket_new)) ?evs))
             = Fulfilled ?r"
    by (simp add: waitReady_def STT_onopen_def STTStream_new_def STT_onmessage_def
          readyResolve_def resolve_simps)
  have c: "transcribe_chunks 0 [1, 2, 3, 4, 5] = [[1, 2, 3, 4, 5]]"
    by code_simp
  have j: \<open>JSON_stringify (STTSetupMessage ?p)
             = ''{"type":"setup","input_format":"pcm","model_name":"default"}''\<close>
    \<open>JSON_stringify (audio_message (btoa (fromCharCode [1, 2, 3, 4, 5])))
             = ''{"type":"audio","audio":"AQIDBAU="}''\<close>
    \<open>JSON_stringify end_of_stream_message = ''{"type":"end_of_stream"}''\<close>
    by code_simp+
  from C10_transcribe_sends_audio_in_chunks [OF h, of "[1, 2, 3, 4, 5]"]
  have a: "map_option (\<lambda>s. sentMessages (ws s)) (snd (STT_transcribe ?p [1, 2, 3, 4, 5] True ?evs))
     = Some (JSON_stringify (STTSetupMessage ?p)
             # map (\<lambda>c. JSON_stringify (audio_message (btoa (fromCharCode c)))) [[1, 2, 3, 4, 5]]
             @ [JSON_stringify end_of_stream_message])"
    unfolding c by (rule conjunct1)
  from C10_transcribe_sends_audio_in_chunks [OF h, of "replicate 4000 0"]
  have b: "length (transcribe_chunks 0 (replicate 4000 0)) = 2" by simp
  from a have a': \<open>map_option (\<lambda>s. sentMessages (ws s)) (snd (STT_transcribe ?p [1, 2, 3, 4, 5] True ?evs))
     = Some [''{"type":"setup","input_format":"pcm","model_name":"default"}'',
             ''{"type":"audio","audio":"AQIDBAU="}'',
             ''{"type":"end_of_stream"}'']\<close>
    by (simp add: j)
  show ?thesis by (intro conjI h a' b)
qed


subsection \<open>The status to error mapping\<close>















subsection \<open>Iteration\<close>




subsection \<open>The polling generator\<close>










subsection \<open>Buffers only grow\<close>










subsection \<open>The generator of \<^verbatim>\<open>iter\<close>\<close>

























subsection \<open>Reading back what \<^verbatim>\<open>JSON.stringify\<close> writes\<close>































subsection \<open>Input envelopes read back\<close>







end
